theory Spec2Isabelle
  imports Complex_Main
begin

section \<open>Values, errors and conventions\<close>

text \<open>
  The development embeds three classes of the loader package: \<open>AssetSizes\<close> (the size
  resolver), \<open>Loader\<close> (the dispatcher) and \<open>AssetLoad\<close> (the batch coordinator).

  Conventions of the embedding:
  \<^item> a JavaScript exception is a value of \<open>error\<close>; an operation that can throw returns
    the error next to the state reached at the throw;
  \<^item> JavaScript numbers are rationals (\<open>rat\<close>) where they are compared or divided and
    \<open>nat\<close> where they count; every number the theorems evaluate is an integer or a
    quotient of two small integers;
  \<^item> an object used as a dictionary is a map of its own properties, or an association
    list in enumeration order where \<open>for ... in\<close> walks it; where the code reads or
    assigns such an object at a key that comes from the caller, what the object inherits
    from \<open>Object.prototype\<close> is modelled too (\<open>object_prototype\<close>);
  \<^item> the source is an ES module, hence strict code: assigning a property on a
    primitive value and reading a property of \<open>null\<close> or \<open>undefined\<close> throw a TypeError.
\<close>

datatype error =
    TypeError
  | AssetsRequireIDs
  | NoValidSize

datatype jsval =
    JUndefined
  | JNull
  | JBool bool
  | JNum int
  | JStr string
  | JFun nat "(string \<times> jsval) list"
  | JObj "(string \<times> jsval) list"
  | JArr "jsval list" "(string \<times> jsval) list"

text \<open>Truthiness, as \<open>if (v)\<close>, \<open>!v\<close> and \<open>v || w\<close> read a value.\<close>

fun truthy :: "jsval \<Rightarrow> bool" where
  "truthy JUndefined = False"
| "truthy JNull = False"
| "truthy (JBool b) = b"
| "truthy (JNum n) = (n \<noteq> 0)"
| "truthy (JStr s) = (s \<noteq> [])"
| "truthy (JFun f ps) = True"
| "truthy (JObj ps) = True"
| "truthy (JArr xs ps) = True"

text \<open>
  The names that \<open>Object.prototype\<close> defines in every ECMAScript engine. A plain object
  (\<open>{}\<close>) inherits them: reading \<open>o[k]\<close> at such a name, with no own property \<open>k\<close>, gives
  the inherited value (a function, or for \<open>__proto__\<close> the prototype itself: truthy in
  each case). All of them are writable data properties, so that \<open>o[k] = v\<close> makes an own
  property, except \<open>__proto__\<close>: it is an accessor, and the assignment runs its setter and
  makes no own property.
\<close>

definition object_prototype :: "string list" where
  "object_prototype =
     [''constructor'', ''hasOwnProperty'', ''isPrototypeOf'', ''propertyIsEnumerable'',
      ''toLocaleString'', ''toString'', ''valueOf'', ''__proto__'', ''__defineGetter__'',
      ''__defineSetter__'', ''__lookupGetter__'', ''__lookupSetter__'']"

section \<open>AssetSizes: the size resolver\<close>

record size_profile =
  size_id :: string
  maxSize :: rat
  scale :: rat
  fallback :: "string list"

record asset_sizes =
  sizes :: "size_profile list"
  sizesMap :: "string \<rightharpoonup> size_profile"
  preferredSize :: "size_profile option"

definition new_asset_sizes :: asset_sizes where
  "new_asset_sizes = \<lparr>sizes = [], sizesMap = Map.empty, preferredSize = None\<rparr>"

text \<open>
  \<open>define\<close> (here \<open>define_size\<close>) stores the profile under its id, pushes it and sorts the list ascending by
  \<open>maxSize\<close> (a stable sort, as \<open>Array.prototype.sort\<close> is).
\<close>

definition define_size :: "string \<Rightarrow> rat \<Rightarrow> rat \<Rightarrow> string list \<Rightarrow> asset_sizes \<Rightarrow> asset_sizes" where
  "define_size i m sc fb st =
     (let sz = \<lparr>size_id = i, maxSize = m, scale = sc, fallback = fb\<rparr>
      in st\<lparr>sizesMap := (sizesMap st)(i \<mapsto> sz),
            sizes := sort_key maxSize (sizes st @ [sz])\<rparr>)"

text \<open>
  \<open>include('devicePixelRatio', false) || 1\<close>: the global when it is defined and not zero,
  otherwise 1.
\<close>

definition effective_ratio :: "rat option \<Rightarrow> rat" where
  "effective_ratio g = (case g of None \<Rightarrow> 1 | Some d \<Rightarrow> if d = 0 then 1 else d)"

text \<open>
  The loop of \<open>refresh\<close> runs from the last index down; it is given the list reversed.
  It keeps overwriting \<open>size\<close> while the test holds and breaks at the first failure.
\<close>

fun refresh_loop :: "rat \<Rightarrow> rat \<Rightarrow> size_profile list \<Rightarrow> size_profile option \<Rightarrow> size_profile option" where
  "refresh_loop dpr minSize [] sz = sz"
| "refresh_loop dpr minSize (s # rest) sz =
     (if maxSize s / dpr > minSize then refresh_loop dpr minSize rest (Some s) else sz)"

definition refresh :: "rat option \<Rightarrow> rat \<Rightarrow> rat \<Rightarrow> asset_sizes \<Rightarrow> asset_sizes" where
  "refresh g width height st =
     (let minSize = min width height;
          dpr = effective_ratio g
      in st\<lparr>preferredSize := refresh_loop dpr minSize (rev (sizes st)) None\<rparr>)"

text \<open>
  The fallback loop of \<open>size\<close>: the first entry whose capability is not \<open>false\<close> replaces
  \<open>size\<close> by whatever the map holds under that id (possibly nothing) and breaks; when
  no entry passes, \<open>size\<close> is left as it was.
\<close>

fun fallback_loop ::
  "(string \<rightharpoonup> bool) \<Rightarrow> (string \<rightharpoonup> size_profile) \<Rightarrow> string list \<Rightarrow> size_profile option
     \<Rightarrow> size_profile option" where
  "fallback_loop caps m [] sz = sz"
| "fallback_loop caps m (alt # rest) sz =
     (if caps alt \<noteq> Some False then m alt else fallback_loop caps m rest sz)"

text \<open>
  \<open>size(supported)\<close>. The capability map is optional; \<open>!supported[size.id]\<close> holds when
  the entry is absent or false. Reading \<open>size.fallback\<close> with no preferred size is a
  TypeError.
\<close>

definition size_for :: "(string \<rightharpoonup> bool) option \<Rightarrow> asset_sizes \<Rightarrow> error + size_profile" where
  "size_for supported st =
     (case preferredSize st of
        None \<Rightarrow> Inl TypeError
      | Some p \<Rightarrow>
          (let sz =
                 (case supported of
                    None \<Rightarrow> Some p
                  | Some caps \<Rightarrow>
                      if caps (size_id p) \<noteq> Some True
                      then fallback_loop caps (sizesMap st) (fallback p) (Some p)
                      else Some p)
           in case sz of None \<Rightarrow> Inl NoValidSize | Some s \<Rightarrow> Inr s))"

section \<open>Loader: the dispatcher\<close>

text \<open>
  \<open>LoaderItem\<close> is an external class. An item lives in a store, since the active map
  and the pool hold references to the same object and \<open>clear()\<close> mutates it in place.
  What \<open>clear()\<close> does to an item and the property key that \<open>item.url\<close> converts
  to are parameters.
\<close>

record 'i item_class =
  clear :: "'i \<Rightarrow> 'i"
  url_key :: "'i \<Rightarrow> string"

record 'i loader =
  items :: "string \<rightharpoonup> nat"
  itemPool :: "nat list"
  store :: "nat \<Rightarrow> 'i"

definition putItem :: "'i item_class \<Rightarrow> nat \<Rightarrow> 'i loader \<Rightarrow> 'i loader" where
  "putItem C r L =
     (let L1 = L\<lparr>items := (items L)(url_key C (store L r) := None)\<rparr>;
          L2 = L1\<lparr>store := (store L1)(r := clear C (store L1 r))\<rparr>
      in L2\<lparr>itemPool := itemPool L2 @ [r]\<rparr>)"

text \<open>
  \<open>this.items[url]\<close>, on the plain object \<open>this.items = {}\<close>: the item stored under
  \<open>url\<close>, or else what \<open>Object.prototype\<close> holds under that name, or else \<open>undefined\<close>.
  (The states are those in which \<open>items\<close> still has \<open>Object.prototype\<close> as its
  prototype.)
\<close>

datatype slot = Tracked nat | Inherited | Missing

definition read_items :: "(string \<rightharpoonup> nat) \<Rightarrow> string \<Rightarrow> slot" where
  "read_items m u =
     (case m u of
        Some r \<Rightarrow> Tracked r
      | None \<Rightarrow> if u \<in> set object_prototype then Inherited else Missing)"

text \<open>
  \<open>cancel(url)\<close>. An inherited value is truthy and passes \<open>if (item)\<close>, but it has no
  \<open>clear\<close> method: \<open>item.clear()\<close> throws a TypeError before anything is changed.
\<close>

definition cancel :: "'i item_class \<Rightarrow> string \<Rightarrow> 'i loader \<Rightarrow> (error + bool) \<times> 'i loader" where
  "cancel C u L =
     (case read_items (items L) u of
        Tracked r \<Rightarrow>
          (let L1 = L\<lparr>store := (store L)(r := clear C (store L r))\<rparr>
           in (Inr True, putItem C r L1))
      | Inherited \<Rightarrow> (Inl TypeError, L)
      | Missing \<Rightarrow> (Inr False, L))"

text \<open>
  A concrete item class and loader for evaluation: an item is its url and a flag set by
  \<open>clear()\<close>, which also forgets the url; one item is active under \<open>a.png\<close>.
\<close>

definition flag_items :: "(string option \<times> bool) item_class" where
  "flag_items =
     \<lparr>clear = (\<lambda>i. (None, True)),
      url_key = (\<lambda>i. case fst i of Some u \<Rightarrow> u | None \<Rightarrow> ''null'')\<rparr>"

definition one_active :: "(string option \<times> bool) loader" where
  "one_active =
     \<lparr>items = [''a.png'' \<mapsto> 0], itemPool = [], store = (\<lambda>r. (Some ''a.png'', False))\<rparr>"

section \<open>The task registry\<close>

text \<open>
  A task class, as the coordinator uses it: the static \<open>test\<close>, and what the constructor
  makes of an asset (the id and the cache flag of the new task). The \<open>Task\<close> base
  class and the concrete constructors are parameters.
\<close>

record taskclass =
  cname :: string
  test :: "jsval \<Rightarrow> bool"
  ctor_id :: "jsval \<Rightarrow> string option"
  ctor_cache :: "jsval \<Rightarrow> bool"
  ctor_hook :: "jsval \<Rightarrow> bool"

text \<open>
  Modelled from the spec: the registration of a task class (\<open>AssetManager.register\<close> is
  not part of the sources at hand). The spec has it as an external append to the ordered
  list of variants.
\<close>

definition register :: "taskclass \<Rightarrow> taskclass list \<Rightarrow> taskclass list" where
  "register T defs = defs @ [T]"

text \<open>
  \<open>getTaskByAsset\<close>: the loop runs over \<open>taskDefs\<close> from index 0 upwards and returns the
  first class whose test accepts; \<open>null\<close> when none does.
\<close>

fun getTaskByAsset :: "taskclass list \<Rightarrow> jsval \<Rightarrow> taskclass option" where
  "getTaskByAsset [] asset = None"
| "getTaskByAsset (T # rest) asset =
     (if test T asset then Some T else getTaskByAsset rest asset)"

section \<open>AssetLoad: the batch coordinator\<close>

text \<open>
  The \<open>Task\<close> base class is external. A task is an object with an identity (\<open>ref\<close>,
  which \<open>indexOf\<close> compares), an optional string id, a cache flag, a status
  (\<open>Task.WAITING\<close>, \<open>Task.RUNNING\<close>, \<open>Task.FINISHED\<close>), the asset it was made from
  (\<open>task.original\<close>) and possibly a \<open>complete\<close> hook.
\<close>

datatype status = WAITING | RUNNING | FINISHED

datatype mode = SINGLE_MODE | MAP_MODE | LIST_MODE

datatype build = DEBUG | RELEASE

record task =
  ref :: nat
  cls :: string
  tid :: "string option"
  cache :: bool
  status :: status
  original :: jsval
  hook :: bool

text \<open>A JavaScript quotient: dividing by zero gives \<open>Infinity\<close> or \<open>NaN\<close>, not a number.\<close>

datatype jsnum = Fin rat | Infinity | NaN

definition quotient :: "nat \<Rightarrow> nat \<Rightarrow> jsnum" where
  "quotient n d =
     (if d = 0 then (if n = 0 then NaN else Infinity) else Fin (of_nat n / of_nat d))"

text \<open>
  What the coordinator does to the outside: the events it triggers, the calls on the
  cache collaborator and on tasks, and the debug log, in the order they happen.
\<close>

datatype event =
    Progress jsnum
  | TaskDoneEvent jsval jsval
  | Complete jsval
  | CacheWrite "string option" jsval
  | TaskStart nat
  | TaskComplete nat jsval
  | TaskDestroy nat
  | DebugError string

record batch =
  mode :: mode
  startAll :: bool
  cacheAll :: bool
  tasks :: "task list"
  results :: jsval
  running :: bool
  numLoaded :: nat
  total_count :: nat
  type_default :: "string option"
  trace :: "event list"
  fresh :: nat

record options =
  opt_startAll :: bool
  opt_autoStart :: bool
  opt_cacheAll :: bool
  opt_type :: "string option"

datatype 'a outcome = Return 'a | Throw error

definition new_batch :: batch where
  "new_batch =
     \<lparr>mode = MAP_MODE, startAll = True, cacheAll = False, tasks = [], results = JNull,
      running = False, numLoaded = 0, total_count = 0, type_default = None, trace = [],
      fresh = 0\<rparr>"

definition emit :: "event \<Rightarrow> batch \<Rightarrow> batch" where
  "emit e st = st\<lparr>trace := trace st @ [e]\<rparr>"

text \<open>\<open>Debug.error\<close> exists in the debug build only.\<close>

definition debug_error :: "build \<Rightarrow> string \<Rightarrow> batch \<Rightarrow> batch" where
  "debug_error bld msg st = (case bld of DEBUG \<Rightarrow> emit (DebugError msg) st | RELEASE \<Rightarrow> st)"

subsection \<open>Properties of objects\<close>

fun put_prop :: "string \<Rightarrow> jsval \<Rightarrow> (string \<times> jsval) list \<Rightarrow> (string \<times> jsval) list" where
  "put_prop k v [] = [(k, v)]"
| "put_prop k v (p # ps) = (if fst p = k then (k, v) # ps else p # put_prop k v ps)"

definition del_prop :: "string \<Rightarrow> (string \<times> jsval) list \<Rightarrow> (string \<times> jsval) list" where
  "del_prop k ps = filter (\<lambda>p. fst p \<noteq> k) ps"

definition look_prop :: "string \<Rightarrow> (string \<times> jsval) list \<Rightarrow> jsval" where
  "look_prop k ps = (case map_of ps k of Some v \<Rightarrow> v | None \<Rightarrow> JUndefined)"

text \<open>
  Reading, writing and deleting a named property. An array keeps such properties beside
  its elements; its indices and \<open>length\<close> are not among them.

  Reads happen at the names \<open>type\<close>, \<open>cache\<close>, \<open>src\<close>, \<open>id\<close> and \<open>complete\<close> only, which
  no built-in prototype defines: the value is the own property or \<open>undefined\<close>.

  Writes happen at \<open>type\<close> and \<open>cache\<close> and, on the MAP container, at the id of a task,
  which comes from the caller. An assignment makes or replaces an own property, except at
  \<open>__proto__\<close>, where the inherited setter runs instead and the own properties stay as
  they are (on a primitive the setter returns without effect). On \<open>null\<close> and
  \<open>undefined\<close> every assignment throws, on another primitive every assignment but the
  one at \<open>__proto__\<close>.
\<close>

fun get_prop :: "jsval \<Rightarrow> string \<Rightarrow> error + jsval" where
  "get_prop JUndefined k = Inl TypeError"
| "get_prop JNull k = Inl TypeError"
| "get_prop (JObj ps) k = Inr (look_prop k ps)"
| "get_prop (JArr xs ps) k = Inr (look_prop k ps)"
| "get_prop (JFun f ps) k = Inr (look_prop k ps)"
| "get_prop v k = Inr JUndefined"

fun set_prop :: "jsval \<Rightarrow> string \<Rightarrow> jsval \<Rightarrow> error + jsval" where
  "set_prop JUndefined k v = Inl TypeError"
| "set_prop JNull k v = Inl TypeError"
| "set_prop (JObj ps) k v = Inr (JObj (if k = ''__proto__'' then ps else put_prop k v ps))"
| "set_prop (JArr xs ps) k v = Inr (JArr xs (if k = ''__proto__'' then ps else put_prop k v ps))"
| "set_prop (JFun f ps) k v = Inr (JFun f (if k = ''__proto__'' then ps else put_prop k v ps))"
| "set_prop w k v = (if k = ''__proto__'' then Inr w else Inl TypeError)"

fun delete_prop :: "jsval \<Rightarrow> string \<Rightarrow> jsval" where
  "delete_prop (JObj ps) k = JObj (del_prop k ps)"
| "delete_prop (JArr xs ps) k = JArr xs (del_prop k ps)"
| "delete_prop (JFun f ps) k = JFun f (del_prop k ps)"
| "delete_prop w k = w"

subsection \<open>Admission\<close>

text \<open>\<open>_applyDefaults\<close>: a string becomes \<open>{src: asset}\<close>, a function \<open>{async: asset}\<close>.\<close>

fun applyDefaults :: "jsval \<Rightarrow> jsval" where
  "applyDefaults (JStr s) = JObj [(''src'', JStr s)]"
| "applyDefaults (JFun f ps) = JObj [(''async'', JFun f ps)]"
| "applyDefaults v = v"

definition type_set :: "string option \<Rightarrow> bool" where
  "type_set ty = (case ty of None \<Rightarrow> False | Some t \<Rightarrow> t \<noteq> [])"

text \<open>\<open>if (asset.type === undefined && this.type) asset.type = this.type\<close>\<close>

definition apply_type :: "string option \<Rightarrow> jsval \<Rightarrow> error + jsval" where
  "apply_type ty asset =
     (case get_prop asset ''type'' of
        Inl e \<Rightarrow> Inl e
      | Inr t \<Rightarrow>
          (case ty of
             Some d \<Rightarrow> if t = JUndefined \<and> d \<noteq> [] then set_prop asset ''type'' (JStr d) else Inr asset
           | None \<Rightarrow> Inr asset))"

text \<open>\<open>if (asset.cache === undefined && this.cacheAll) asset.cache = true\<close>\<close>

definition apply_cache :: "bool \<Rightarrow> jsval \<Rightarrow> error + jsval" where
  "apply_cache ca asset =
     (case get_prop asset ''cache'' of
        Inl e \<Rightarrow> Inl e
      | Inr c \<Rightarrow> if c = JUndefined \<and> ca then set_prop asset ''cache'' (JBool True) else Inr asset)"

text \<open>
  The part of \<open>addTask\<close> before the task is made: the default type, the class lookup
  and the default cache flag. It reads the batch's \<open>type\<close> and \<open>cacheAll\<close> only.
\<close>

definition resolve :: "taskclass list \<Rightarrow> string option \<Rightarrow> bool \<Rightarrow> jsval \<Rightarrow> error + (taskclass \<times> jsval) option" where
  "resolve defs ty ca asset =
     (case apply_type ty asset of
        Inl e \<Rightarrow> Inl e
      | Inr a1 \<Rightarrow>
          (case getTaskByAsset defs a1 of
             None \<Rightarrow> Inr None
           | Some T \<Rightarrow>
               (case apply_cache ca a1 of
                  Inl e \<Rightarrow> Inl e
                | Inr a2 \<Rightarrow> Inr (Some (T, a2)))))"

text \<open>
  Modelled from the spec: the \<open>Task\<close> constructor (\<open>new TaskClass(asset)\<close>), whose
  source is not at hand. A task is created WAITING on the admission of its descriptor,
  bound to that descriptor, with an optional id and an optional cache flag; the id, the
  flag and the presence of a hook are what the class makes of the asset.
\<close>

definition new_task :: "taskclass \<Rightarrow> jsval \<Rightarrow> nat \<Rightarrow> task" where
  "new_task T asset r =
     \<lparr>ref = r, cls = cname T, tid = ctor_id T asset, cache = ctor_cache T asset,
      status = WAITING, original = asset, hook = ctor_hook T asset\<rparr>"

text \<open>
  \<open>addTask\<close>: with a class, the task is made, pushed and counted; without one, the
  failure is logged (debug build) and \<open>undefined\<close> is returned.
\<close>

definition addTask :: "taskclass list \<Rightarrow> build \<Rightarrow> jsval \<Rightarrow> batch \<Rightarrow> task option outcome \<times> batch" where
  "addTask defs bld asset st =
     (case resolve defs (type_default st) (cacheAll st) asset of
        Inl e \<Rightarrow> (Throw e, st)
      | Inr None \<Rightarrow>
          (Return None, debug_error bld ''Unable to find a task definition for asset'' st)
      | Inr (Some (T, a)) \<Rightarrow>
          (let t = new_task T a (fresh st)
           in (Return (Some t),
               st\<lparr>tasks := tasks st @ [t], total_count := Suc (total_count st),
                   fresh := Suc (fresh st)\<rparr>)))"

text \<open>\<open>!task.id\<close>: no id, or the empty string.\<close>

definition no_id :: "task \<Rightarrow> bool" where
  "no_id t = (case tid t of None \<Rightarrow> True | Some i \<Rightarrow> i = [])"

text \<open>\<open>task.id = id\<close> on the task that \<open>addTask\<close> has just pushed: the last of the list.\<close>

definition set_last_id :: "string \<Rightarrow> batch \<Rightarrow> batch" where
  "set_last_id k st =
     st\<lparr>tasks := butlast (tasks st) @ [(last (tasks st))\<lparr>tid := Some k\<rparr>]\<rparr>"

text \<open>
  The array loop of \<open>addTasks\<close>. \<open>task.id\<close> is read whether or not \<open>addTask\<close> returned a
  task: on \<open>undefined\<close> the read throws.
\<close>

fun add_array :: "taskclass list \<Rightarrow> build \<Rightarrow> jsval list \<Rightarrow> mode \<Rightarrow> batch \<Rightarrow> mode outcome \<times> batch" where
  "add_array defs bld [] m st = (Return m, st)"
| "add_array defs bld (a # rest) m st =
     (case addTask defs bld (applyDefaults a) st of
        (Throw e, st1) \<Rightarrow> (Throw e, st1)
      | (Return None, st1) \<Rightarrow> (Throw TypeError, st1)
      | (Return (Some t), st1) \<Rightarrow>
          add_array defs bld rest (if no_id t then LIST_MODE else m) st1)"

text \<open>The \<open>for ... in\<close> loop of \<open>addTasks\<close> over a plain object's properties.\<close>

fun add_object :: "taskclass list \<Rightarrow> build \<Rightarrow> (string \<times> jsval) list \<Rightarrow> mode \<Rightarrow> batch \<Rightarrow> mode outcome \<times> batch" where
  "add_object defs bld [] m st = (Return m, st)"
| "add_object defs bld (p # rest) m st =
     (case addTask defs bld (applyDefaults (snd p)) st of
        (Throw e, st1) \<Rightarrow> (Throw e, st1)
      | (Return None, st1) \<Rightarrow> (Throw TypeError, st1)
      | (Return (Some t), st1) \<Rightarrow>
          add_object defs bld rest m (if no_id t then set_last_id (fst p) st1 else st1))"

text \<open>
  \<open>if (assets.type === this.type && this.type) delete assets.type\<close>, on the path where
  the collection itself matched no class.
\<close>

definition drop_type :: "string option \<Rightarrow> jsval \<Rightarrow> jsval" where
  "drop_type ty assets =
     (case ty of
        Some d \<Rightarrow> if get_prop assets ''type'' = Inr (JStr d) \<and> d \<noteq> [] then delete_prop assets ''type'' else assets
      | None \<Rightarrow> assets)"

text \<open>
  \<open>addTasks\<close> returns the mode of the collection: SINGLE when the value itself matches a
  class; for an array MAP, or LIST once a task without id was made; for a plain object
  MAP. \<open>Object.isPlain\<close> is true of plain objects only.
\<close>

definition addTasks :: "taskclass list \<Rightarrow> build \<Rightarrow> jsval \<Rightarrow> batch \<Rightarrow> mode outcome \<times> batch" where
  "addTasks defs bld assets st =
     (let assets0 = applyDefaults assets
      in case apply_type (type_default st) assets0 of
           Inl e \<Rightarrow> (Throw e, st)
         | Inr assets1 \<Rightarrow>
             (case getTaskByAsset defs assets1 of
                Some T \<Rightarrow>
                  (case addTask defs bld assets1 st of
                     (Throw e, st1) \<Rightarrow> (Throw e, st1)
                   | (Return t, st1) \<Rightarrow> (Return SINGLE_MODE, st1))
              | None \<Rightarrow>
                  (case drop_type (type_default st) assets1 of
                     JArr xs ps \<Rightarrow> add_array defs bld xs MAP_MODE st
                   | JObj ps \<Rightarrow> add_object defs bld ps MAP_MODE st
                   | other \<Rightarrow> (Return MAP_MODE, debug_error bld ''Asset type unsupported'' st))))"

subsection \<open>Dispatch and completion\<close>

text \<open>
  The loop of \<open>nextTask\<close>: every WAITING task met is set RUNNING and started; in serial
  mode (\<open>startAll\<close> false) the loop returns after the first. A started task calls back
  later, through \<open>taskDone\<close>; \<open>start\<close> itself returns first.
\<close>

fun next_loop :: "bool \<Rightarrow> task list \<Rightarrow> task list \<times> event list" where
  "next_loop sa [] = ([], [])"
| "next_loop sa (t # ts) =
     (if status t = WAITING
      then (if \<not> sa then (t\<lparr>status := RUNNING\<rparr> # ts, [TaskStart (ref t)])
            else (t\<lparr>status := RUNNING\<rparr> # fst (next_loop sa ts),
                  TaskStart (ref t) # snd (next_loop sa ts)))
      else (t # fst (next_loop sa ts), snd (next_loop sa ts)))"

definition nextTask :: "batch \<Rightarrow> batch" where
  "nextTask st =
     st\<lparr>tasks := fst (next_loop (startAll st) (tasks st)),
        trace := trace st @ snd (next_loop (startAll st) (tasks st))\<rparr>"

definition start :: "batch \<Rightarrow> batch" where
  "start st = nextTask ((emit (Progress (Fin 0)) st)\<lparr>running := True\<rparr>)"

definition getAssetsContainer :: "mode \<Rightarrow> jsval" where
  "getAssetsContainer m =
     (case m of SINGLE_MODE \<Rightarrow> JNull | LIST_MODE \<Rightarrow> JArr [] [] | MAP_MODE \<Rightarrow> JObj [])"

definition setup_batch :: "taskclass list \<Rightarrow> build \<Rightarrow> jsval \<Rightarrow> options \<Rightarrow> batch \<Rightarrow> unit outcome \<times> batch" where
  "setup_batch defs bld assets opts st =
     (let st0 = st\<lparr>startAll := opt_startAll opts, cacheAll := opt_cacheAll opts,
                   type_default := opt_type opts\<rparr>
      in case addTasks defs bld assets st0 of
           (Throw e, st1) \<Rightarrow> (Throw e, st1)
         | (Return m, st1) \<Rightarrow>
             (let st2 = st1\<lparr>mode := m, results := getAssetsContainer m\<rparr>
              in (Return (), if opt_autoStart opts then start st2 else st2)))"

text \<open>The property key that \<open>task.id\<close> converts to.\<close>

definition id_key :: "string option \<Rightarrow> string" where
  "id_key i = (case i of Some k \<Rightarrow> k | None \<Rightarrow> ''null'')"

text \<open>
  Folding a result into the container, by mode: replace, \<open>push\<close>, or assign at the
  task's id (\<open>this.results[task.id] = result\<close>, with what that assignment does at the
  id \<open>__proto__\<close>). \<open>push\<close> on anything but an array and an assignment on \<open>null\<close>,
  \<open>undefined\<close> or a primitive throw.
\<close>

definition fold_result :: "mode \<Rightarrow> jsval \<Rightarrow> task \<Rightarrow> jsval \<Rightarrow> error + jsval" where
  "fold_result m res t result =
     (case m of
        SINGLE_MODE \<Rightarrow> Inr result
      | LIST_MODE \<Rightarrow> (case res of JArr xs ps \<Rightarrow> Inr (JArr (xs @ [result]) ps) | other \<Rightarrow> Inl TypeError)
      | MAP_MODE \<Rightarrow> set_prop res (id_key (tid t)) result)"

fun remove_first :: "nat \<Rightarrow> task list \<Rightarrow> task list" where
  "remove_first r [] = []"
| "remove_first r (t # ts) = (if ref t = r then ts else t # remove_first r ts)"

text \<open>
  The block \<open>if (result) { ... }\<close> of \<open>taskDone\<close>: the fold, then the cache write when
  the task asks for it.
\<close>

definition fold_and_cache :: "task \<Rightarrow> jsval \<Rightarrow> batch \<Rightarrow> error + batch" where
  "fold_and_cache t result st =
     (if truthy result
      then (case fold_result (mode st) (results st) t result of
              Inl e \<Rightarrow> Inl e
            | Inr res \<Rightarrow>
                (let st1 = st\<lparr>results := res\<rparr>
                 in Inr (if cache t then emit (CacheWrite (tid t) result) st1 else st1)))
      else Inr st)"

text \<open>The task's own \<open>complete\<close> hook, the \<open>taskDone\<close> event, and \<open>task.destroy()\<close>.\<close>

definition notify :: "task \<Rightarrow> jsval \<Rightarrow> batch \<Rightarrow> batch" where
  "notify t result st =
     (let st1 = (if hook t then emit (TaskComplete (ref t) result) st else st);
          st2 = emit (TaskDoneEvent result (original t)) st1
      in emit (TaskDestroy (ref t)) st2)"

text \<open>
  The end of \<open>taskDone\<close>, after the admission returned the mode \<open>m\<close>: the progress event,
  the check that a MAP batch stays MAP (a log and a return in the debug build, a throw
  in the release build), then the next dispatch or the \<open>complete\<close> event.
\<close>

definition finish :: "build \<Rightarrow> mode \<Rightarrow> batch \<Rightarrow> unit outcome \<times> batch" where
  "finish bld m st =
     (let st1 = st\<lparr>numLoaded := Suc (numLoaded st)\<rparr>;
          st2 = emit (Progress (quotient (numLoaded st1) (total_count st1))) st1
      in if mode st2 = MAP_MODE \<and> m \<noteq> mode st2
         then (case bld of
                 DEBUG \<Rightarrow>
                   (Return (),
                    emit (DebugError ''Load assets require IDs to return mapped results'') st2)
               | RELEASE \<Rightarrow> (Throw AssetsRequireIDs, st2))
         else if tasks st2 \<noteq> []
         then (Return (), nextTask st2)
         else (Return (), emit (Complete (results st2)) st2))"

text \<open>
  \<open>taskDone(task, result)\<close>. The task is named by its identity \<open>r\<close>; \<open>extra\<close> is the
  content of the \<open>assets\<close> array once the task's \<open>complete\<close> hook and the listeners
  of the \<open>taskDone\<close> event have returned.
\<close>

definition taskDone :: "taskclass list \<Rightarrow> build \<Rightarrow> nat \<Rightarrow> jsval \<Rightarrow> jsval list \<Rightarrow> batch \<Rightarrow> unit outcome \<times> batch" where
  "taskDone defs bld r result0 extra st =
     (if \<not> running st then (Return (), st)
      else
        (let result = (if truthy result0 then result0 else JNull)
         in case find (\<lambda>t. ref t = r) (tasks st) of
              None \<Rightarrow> (Return (), st)
            | Some t \<Rightarrow>
                (let st1 = st\<lparr>tasks := remove_first r (tasks st)\<rparr>
                 in case fold_and_cache t result st1 of
                      Inl e \<Rightarrow> (Throw e, st1)
                    | Inr st2 \<Rightarrow>
                        (case addTasks defs bld (JArr extra []) (notify t result st2) of
                           (Throw e, st3) \<Rightarrow> (Throw e, st3)
                         | (Return m, st3) \<Rightarrow> finish bld m st3))))"

subsection \<open>Concrete classes and inputs\<close>

text \<open>
  \<open>LoadTask\<close>: its test is \<open>!!asset.src\<close>. As the class documents its asset
  (\<open>asset.id\<close>, a string; \<open>asset.cache\<close>, a boolean; \<open>asset.complete\<close>, a function), the
  task takes the asset's \<open>id\<close> when that is a string, caches when \<open>asset.cache\<close> is
  truthy and has a hook when \<open>asset.complete\<close> is. The fallback id that \<open>LoadTask\<close>
  passes to the base constructor is left out: no batch below caches an asset without id.
\<close>

definition prop_of :: "jsval \<Rightarrow> string \<Rightarrow> jsval" where
  "prop_of a k = (case get_prop a k of Inl e \<Rightarrow> JUndefined | Inr v \<Rightarrow> v)"

definition asset_id :: "jsval \<Rightarrow> string option" where
  "asset_id a = (case prop_of a ''id'' of JStr s \<Rightarrow> Some s | other \<Rightarrow> None)"

definition LoadTask :: taskclass where
  "LoadTask =
     \<lparr>cname = ''LoadTask'', test = (\<lambda>a. truthy (prop_of a ''src'')), ctor_id = asset_id,
      ctor_cache = (\<lambda>a. truthy (prop_of a ''cache'')),
      ctor_hook = (\<lambda>a. truthy (prop_of a ''complete''))\<rparr>"

definition default_options :: options where
  "default_options = \<lparr>opt_startAll = True, opt_autoStart = True, opt_cacheAll = False, opt_type = None\<rparr>"

subsection \<open>Predicates of the statements\<close>

text \<open>
  Admission only appends: it keeps the configuration, the container and the counters of
  completions, adds WAITING tasks at the end of the list, counts each of them once, and
  emits nothing but debug log entries.
\<close>

definition is_debug :: "event \<Rightarrow> bool" where
  "is_debug e = (case e of DebugError m \<Rightarrow> True | other \<Rightarrow> False)"

definition extends :: "batch \<Rightarrow> batch \<Rightarrow> bool" where
  "extends st st' =
     (mode st' = mode st \<and> results st' = results st \<and> running st' = running st
      \<and> numLoaded st' = numLoaded st \<and> startAll st' = startAll st
      \<and> cacheAll st' = cacheAll st \<and> type_default st' = type_default st
      \<and> (\<exists>new. tasks st' = tasks st @ new
             \<and> total_count st' = total_count st + length new
             \<and> list_all (\<lambda>t. status t = WAITING) new)
      \<and> (\<exists>ev. trace st' = trace st @ ev \<and> list_all is_debug ev))"

definition same_config :: "batch \<Rightarrow> batch \<Rightarrow> bool" where
  "same_config st st' =
     (mode st' = mode st \<and> running st' = running st \<and> startAll st' = startAll st
      \<and> cacheAll st' = cacheAll st \<and> type_default st' = type_default st)"

text \<open>
  A member of a collection resolves when \<open>addTask\<close> finds a class for it (after the
  defaults); it lacks an id when the task made for it has none. A collection matches as
  a whole when \<open>addTasks\<close> finds a class for the collection itself.
\<close>

definition resolves :: "taskclass list \<Rightarrow> string option \<Rightarrow> bool \<Rightarrow> jsval \<Rightarrow> bool" where
  "resolves defs ty ca a =
     (case resolve defs ty ca (applyDefaults a) of Inr (Some p) \<Rightarrow> True | other \<Rightarrow> False)"

definition lacks_id :: "taskclass list \<Rightarrow> string option \<Rightarrow> bool \<Rightarrow> jsval \<Rightarrow> bool" where
  "lacks_id defs ty ca a =
     (case resolve defs ty ca (applyDefaults a) of
        Inr (Some p) \<Rightarrow> (case ctor_id (fst p) (snd p) of None \<Rightarrow> True | Some i \<Rightarrow> i = [])
      | other \<Rightarrow> False)"

definition matches_whole :: "taskclass list \<Rightarrow> string option \<Rightarrow> jsval \<Rightarrow> bool" where
  "matches_whole defs ty a =
     (case apply_type ty (applyDefaults a) of
        Inr a1 \<Rightarrow> (case getTaskByAsset defs a1 of Some T \<Rightarrow> True | None \<Rightarrow> False)
      | Inl e \<Rightarrow> False)"

text \<open>
  The container fits the mode: anything in SINGLE mode, an array in LIST mode, a plain
  object in MAP mode. \<open>setup\<close> allocates it so and \<open>taskDone\<close> keeps it so.
\<close>

definition container_ok :: "mode \<Rightarrow> jsval \<Rightarrow> bool" where
  "container_ok m res =
     (case m of
        SINGLE_MODE \<Rightarrow> True
      | LIST_MODE \<Rightarrow> (case res of JArr xs ps \<Rightarrow> True | other \<Rightarrow> False)
      | MAP_MODE \<Rightarrow> (case res of JObj ps \<Rightarrow> True | other \<Rightarrow> False))"

definition is_cache_write :: "event \<Rightarrow> bool" where
  "is_cache_write e = (case e of CacheWrite i v \<Rightarrow> True | other \<Rightarrow> False)"

definition is_task_done :: "event \<Rightarrow> bool" where
  "is_task_done e = (case e of TaskDoneEvent v a \<Rightarrow> True | other \<Rightarrow> False)"

text \<open>A run of events without a cache write.\<close>

definition silent :: "event list \<Rightarrow> bool" where
  "silent ev = list_all (\<lambda>e. \<not> is_cache_write e) ev"

text \<open>The fractions of the \<open>progress\<close> events of a trace, in order.\<close>

fun progress_values :: "event list \<Rightarrow> jsnum list" where
  "progress_values [] = []"
| "progress_values (Progress p # es) = p # progress_values es"
| "progress_values (e # es) = progress_values es"

text \<open>
  The counters of a started batch: every counted task is either completed or pending,
  and the last fraction emitted is \<open>numLoaded / total\<close>.
\<close>

definition consistent :: "batch \<Rightarrow> bool" where
  "consistent st =
     (total_count st = numLoaded st + length (tasks st)
      \<and> progress_values (trace st) \<noteq> []
      \<and> last (progress_values (trace st)) = Fin (of_nat (numLoaded st) / of_nat (total_count st)))"

text \<open>The number of pending tasks that are RUNNING.\<close>

definition in_flight :: "batch \<Rightarrow> nat" where
  "in_flight st = length (filter (\<lambda>t. status t = RUNNING) (tasks st))"

text \<open>
  The states of a serial batch: \<open>setup\<close> with \<open>startAll\<close> false on a new batch, \<open>start\<close>
  on a batch that is not running yet, and \<open>taskDone\<close> for a pending task that is
  RUNNING, whatever its result and whatever it admits. (A task gets its callback when
  \<open>nextTask\<close> starts it, so only a RUNNING task completes.)
\<close>

inductive serial_run :: "taskclass list \<Rightarrow> build \<Rightarrow> batch \<Rightarrow> bool" for defs bld where
  created:
    "setup_batch defs bld assets opts new_batch = (out, st) \<Longrightarrow> \<not> opt_startAll opts
       \<Longrightarrow> serial_run defs bld st"
| started:
    "serial_run defs bld st \<Longrightarrow> \<not> running st \<Longrightarrow> serial_run defs bld (start st)"
| completed:
    "serial_run defs bld st \<Longrightarrow> find (\<lambda>t. ref t = r) (tasks st) = Some t
       \<Longrightarrow> status t = RUNNING \<Longrightarrow> taskDone defs bld r res extra st = (out, st')
       \<Longrightarrow> serial_run defs bld st'"

text \<open>
  The order of dispatches and completions in a trace. \<open>open_after k\<close> counts the tasks
  started and not yet completed after the events, from \<open>k\<close> before them;
  \<open>dispatch_ordered k\<close> holds when every \<open>start\<close> happens with no task open: a task is
  never dispatched before the \<open>taskDone\<close> event of the one dispatched before it.
\<close>

fun dispatch_ordered :: "nat \<Rightarrow> event list \<Rightarrow> bool" where
  "dispatch_ordered k [] = True"
| "dispatch_ordered k (TaskStart r # es) = (k = 0 \<and> dispatch_ordered 1 es)"
| "dispatch_ordered k (TaskDoneEvent v a # es) = dispatch_ordered (k - 1) es"
| "dispatch_ordered k (e # es) = dispatch_ordered k es"

fun open_after :: "nat \<Rightarrow> event list \<Rightarrow> nat" where
  "open_after k [] = k"
| "open_after k (TaskStart r # es) = open_after 1 es"
| "open_after k (TaskDoneEvent v a # es) = open_after (k - 1) es"
| "open_after k (e # es) = open_after k es"

text \<open>Events that neither dispatch nor complete a task.\<close>

definition neutral :: "event list \<Rightarrow> bool" where
  "neutral ev = list_all (\<lambda>e. case e of TaskStart r \<Rightarrow> False | TaskDoneEvent v a \<Rightarrow> False | other \<Rightarrow> True) ev"

definition trace_inv :: "batch \<Rightarrow> bool" where
  "trace_inv st =
     (dispatch_ordered 0 (trace st) \<and> open_after 0 (trace st) \<le> 1
      \<and> (running st \<or> open_after 0 (trace st) = 0))"

definition serial_inv :: "batch \<Rightarrow> bool" where
  "serial_inv st = (\<not> startAll st \<and> in_flight st \<le> 1 \<and> (running st \<or> in_flight st = 0))"

subsection \<open>Concrete batches\<close>

text \<open>
  \<open>(sd, hd)\<close>: the two profiles of the size resolver's example, \<open>sd\<close> defined first.
\<close>

definition sd_hd :: asset_sizes where
  "sd_hd = define_size ''hd'' 800 1 [''sd''] (define_size ''sd'' 100 1 [] new_asset_sizes)"

text \<open>
  A parallel batch over the array \<open>['a', 'b']\<close>; \<open>a\<close> completes and admits nothing, then
  \<open>b\<close> completes and admits three more descriptors.
\<close>

definition ab_batch :: batch where
  "ab_batch =
     snd (setup_batch [LoadTask] RELEASE (JArr [JStr ''a'', JStr ''b''] []) default_options new_batch)"

definition ab_batch1 :: batch where
  "ab_batch1 = snd (taskDone [LoadTask] RELEASE 0 (JStr ''A'') [] ab_batch)"

definition ab_batch2 :: batch where
  "ab_batch2 =
     snd (taskDone [LoadTask] RELEASE 1 (JStr ''B'') [JStr ''c'', JStr ''d'', JStr ''e''] ab_batch1)"


text \<open>A batch over the one-element array \<open>[{src: 'a.png', id: 'a', cache: true}]\<close>.\<close>

definition cached_batch :: batch where
  "cached_batch =
     snd (setup_batch [LoadTask] RELEASE
            (JArr [JObj [(''src'', JStr ''a.png''), (''id'', JStr ''a''), (''cache'', JBool True)]] [])
            default_options new_batch)"

text \<open>The serial batch over \<open>['a', 'b']\<close>.\<close>

definition serial_options :: options where
  "serial_options = \<lparr>opt_startAll = False, opt_autoStart = True, opt_cacheAll = False, opt_type = None\<rparr>"

definition serial_batch :: batch where
  "serial_batch =
     snd (setup_batch [LoadTask] RELEASE (JArr [JStr ''a'', JStr ''b''] []) serial_options new_batch)"

definition serial_batch1 :: batch where
  "serial_batch1 = snd (taskDone [LoadTask] RELEASE 0 (JStr ''A'') [] serial_batch)"

text \<open>An array with a member that no class matches, between two that \<open>LoadTask\<close> matches.\<close>

definition mixed_array :: jsval where
  "mixed_array = JArr [JStr ''a.png'', JObj [(''foo'', JNum 1)], JStr ''b.png''] []"

definition mixed_object :: jsval where
  "mixed_object =
     JObj [(''x'', JStr ''a.png''), (''y'', JObj [(''foo'', JNum 1)]), (''z'', JStr ''b.png'')]"

section \<open>Properties of the size resolver\<close>

lemma sizes_sd_hd:
  "sizes sd_hd =
     [\<lparr>size_id = ''sd'', maxSize = 100, scale = 1, fallback = []\<rparr>,
      \<lparr>size_id = ''hd'', maxSize = 800, scale = 1, fallback = [''sd'']\<rparr>]"
  by (simp add: sd_hd_def define_size_def new_asset_sizes_def Let_def)

text \<open>
  On a list sorted by \<open>maxSize\<close> the descending loop ends at the first profile, in
  ascending order, whose \<open>maxSize / devicePixelRatio\<close> exceeds the smaller side.
\<close>

lemma refresh_loop_append:
  "refresh_loop d m (xs @ ys) acc =
     (if \<forall>s \<in> set xs. maxSize s / d > m then refresh_loop d m ys (if xs = [] then acc else Some (last xs))
      else refresh_loop d m xs acc)"
  by (induction xs arbitrary: acc) auto

lemma find_all_pass: "\<forall>s \<in> set xs. P s \<Longrightarrow> find P xs = (if xs = [] then None else Some (hd xs))"
  by (cases xs) auto

lemma refresh_loop_sorted:
  assumes "sorted (map maxSize xs)" and "0 < d"
  shows "refresh_loop d m (rev xs) None = find (\<lambda>s. maxSize s / d > m) xs"
  using assms
proof (induction xs)
  case Nil
  then show ?case by simp
next
  case (Cons x xs)
  have mono: "\<forall>s \<in> set xs. maxSize x / d \<le> maxSize s / d"
    using Cons.prems by (auto simp: divide_right_mono)
  have ih: "refresh_loop d m (rev xs) None = find (\<lambda>s. maxSize s / d > m) xs"
    using Cons by simp
  show ?case
  proof (cases "maxSize x / d > m")
    case True
    then have "\<forall>s \<in> set (rev xs). maxSize s / d > m"
      using mono by fastforce
    then show ?thesis
      using True by (simp add: refresh_loop_append)
  next
    case False
    show ?thesis
    proof (cases "\<forall>s \<in> set xs. maxSize s / d > m")
      case True
      have "refresh_loop d m (rev (x # xs)) None = (if xs = [] then None else Some (hd xs))"
        using True False by (simp add: refresh_loop_append last_rev)
      moreover have "find (\<lambda>s. maxSize s / d > m) (x # xs) = (if xs = [] then None else Some (hd xs))"
        using False find_all_pass [OF True] by simp
      ultimately show ?thesis by simp
    next
      case allF: False
      have "refresh_loop d m (rev (x # xs)) None = refresh_loop d m (rev xs) None"
        using allF False by (auto simp: refresh_loop_append)
      then show ?thesis
        using False ih by simp
    qed
  qed
qed

text \<open>
  C8, at the viewport (100, 100) with the profiles \<open>sd\<close> (maxSize 100) and \<open>hd\<close> (maxSize
  800) and a device pixel ratio of 1: the claim names \<open>sd\<close>, whose documented \<open>maxSize\<close>
  is the maximum size capable of using it; the loop tests \<open>100 / 1 > 100\<close>, which fails,
  breaks at \<open>sd\<close> and leaves \<open>hd\<close> active. (At (50, 50) the code selects \<open>sd\<close>, as the
  claim says.)
\<close>

theorem C8_refresh_100_selects_hd:
  "map_option size_id (preferredSize (refresh (Some 1) 100 100 sd_hd)) = Some ''hd''
   \<and> map_option size_id (preferredSize (refresh (Some 1) 50 50 sd_hd)) = Some ''sd''"
  by (simp add: refresh_def effective_ratio_def sizes_sd_hd Let_def)

text \<open>
  What \<open>size\<close> does when the walk finds nothing: with the active profile's entry absent
  or false and every entry of its chain marked false, the active profile is returned.
\<close>

lemma fallback_loop_none:
  "list_all (\<lambda>alt. caps alt = Some False) fb \<Longrightarrow> fallback_loop caps m fb sz = sz"
  by (induction fb) simp_all

lemma size_for_no_fallback:
  assumes "preferredSize st = Some p" and "caps (size_id p) \<noteq> Some True"
    and "list_all (\<lambda>alt. caps alt = Some False) (fallback p)"
  shows "size_for (Some caps) st = Inr p"
  using assms by (simp add: size_for_def fallback_loop_none)

text \<open>
  C9, at the input where no entry of the fallback chain qualifies: the active profile is
  \<open>hd\<close> with the chain \<open>[sd]\<close>, and the capability map marks both \<open>hd\<close> and \<open>sd\<close> as
  unsupported. The loop leaves \<open>size\<close> untouched, so \<open>size\<close> returns the unsupported
  active profile and nothing is thrown.
\<close>

theorem C9_size_no_fallback_returns_active:
  "map_sum id size_id
     (size_for (Some [''hd'' \<mapsto> False, ''sd'' \<mapsto> False]) (refresh (Some 1) 100 100 sd_hd))
   = Inr ''hd''"
  by (simp add: size_for_def refresh_def effective_ratio_def sizes_sd_hd Let_def)

section \<open>Properties of the dispatcher\<close>

text \<open>
  What \<open>cancel\<close> does, by what \<open>this.items[url]\<close> holds: with an item tracked under
  \<open>url\<close> it returns true, clears the item and pushes it onto the pool; with nothing under
  \<open>url\<close>, not even inherited, it returns false and changes nothing; at a name that the
  object inherits it throws.
\<close>

lemma cancel_tracked:
  assumes "items L u = Some r"
  shows "fst (cancel C u L) = Inr True
         \<and> itemPool (snd (cancel C u L)) = itemPool L @ [r]
         \<and> store (snd (cancel C u L)) r = clear C (clear C (store L r))"
  using assms by (simp add: cancel_def read_items_def putItem_def Let_def)

lemma cancel_missing:
  assumes "items L u = None" and "u \<notin> set object_prototype"
  shows "cancel C u L = (Inr False, L)"
  using assms by (simp add: cancel_def read_items_def)

lemma cancel_inherited:
  assumes "items L u = None" and "u \<in> set object_prototype"
  shows "cancel C u L = (Inl TypeError, L)"
  using assms by (simp add: cancel_def read_items_def)

text \<open>
  C10, at the url \<open>constructor\<close>, with one item active under \<open>a.png\<close> and none under
  \<open>constructor\<close>: \<open>this.items['constructor']\<close> is the inherited \<open>Object\<close> function, which
  passes \<open>if (item)\<close>; \<open>item.clear()\<close> then throws a TypeError, where the claim has
  \<open>cancel\<close> return false. (At \<open>b.png\<close>, which nothing defines, it does return false and
  leaves the loader as it was; at \<open>a.png\<close> it returns true and pools the item.)
\<close>

theorem C10_cancel_constructor_throws:
  "cancel flag_items ''constructor'' one_active = (Inl TypeError, one_active)
   \<and> cancel flag_items ''b.png'' one_active = (Inr False, one_active)
   \<and> fst (cancel flag_items ''a.png'' one_active) = Inr True
   \<and> itemPool (snd (cancel flag_items ''a.png'' one_active)) = [0]"
  by (simp add: cancel_def read_items_def object_prototype_def putItem_def one_active_def
      flag_items_def Let_def)

section \<open>Properties of the registry\<close>

lemma getTaskByAsset_find: "getTaskByAsset defs a = find (\<lambda>T. test T a) defs"
  by (induction defs) auto

text \<open>
  C3, at two registrations that both accept: \<open>A\<close> is registered first, \<open>B\<close> second, and
  the forward loop returns \<open>A\<close>, the earlier registration.
\<close>

theorem C3_earlier_registration_wins:
  "map_option cname
     (getTaskByAsset
        (register \<lparr>cname = ''B'', test = (\<lambda>a. True), ctor_id = (\<lambda>a. None), ctor_cache = (\<lambda>a. False), ctor_hook = (\<lambda>a. False)\<rparr>
          (register \<lparr>cname = ''A'', test = (\<lambda>a. True), ctor_id = (\<lambda>a. None), ctor_cache = (\<lambda>a. False), ctor_hook = (\<lambda>a. False)\<rparr> []))
        (JObj [(''src'', JStr ''a.png'')]))
   = Some ''A''"
  by (simp add: register_def)

section \<open>Properties of admission\<close>

lemmas admit_eval = addTasks_def addTask_def resolve_def apply_type_def apply_cache_def
  drop_type_def LoadTask_def prop_of_def look_prop_def asset_id_def new_task_def no_id_def
  debug_error_def emit_def Let_def set_last_id_def

lemmas pred_eval = resolves_def lacks_id_def matches_whole_def container_ok_def

lemma extends_refl: "extends st st"
  by (simp add: extends_def)

lemma extends_trans:
  assumes "extends a b" and "extends b c"
  shows "extends a c"
proof -
  obtain n1 e1 where 1: "tasks b = tasks a @ n1" "total_count b = total_count a + length n1"
      "list_all (\<lambda>t. status t = WAITING) n1" "trace b = trace a @ e1" "list_all is_debug e1"
    using assms(1) unfolding extends_def by blast
  obtain n2 e2 where 2: "tasks c = tasks b @ n2" "total_count c = total_count b + length n2"
      "list_all (\<lambda>t. status t = WAITING) n2" "trace c = trace b @ e2" "list_all is_debug e2"
    using assms(2) unfolding extends_def by blast
  have t: "tasks c = tasks a @ (n1 @ n2) \<and> total_count c = total_count a + length (n1 @ n2)
      \<and> list_all (\<lambda>t. status t = WAITING) (n1 @ n2)"
    using 1 2 by simp
  have e: "trace c = trace a @ (e1 @ e2) \<and> list_all is_debug (e1 @ e2)"
    using 1 2 by simp
  have f: "mode c = mode a \<and> results c = results a \<and> running c = running a
      \<and> numLoaded c = numLoaded a \<and> startAll c = startAll a
      \<and> cacheAll c = cacheAll a \<and> type_default c = type_default a"
    using assms unfolding extends_def by simp
  show ?thesis
    unfolding extends_def using f t e by blast
qed

lemma extends_debug_error: "extends st (debug_error bld msg st)"
  by (cases bld) (simp_all add: extends_def debug_error_def emit_def is_debug_def)

lemma extends_push:
  "status t = WAITING \<Longrightarrow>
   extends st (st\<lparr>tasks := tasks st @ [t], total_count := Suc (total_count st), fresh := f\<rparr>)"
  by (simp add: extends_def)

lemma addTask_extends: "addTask defs bld a st = (out, st') \<Longrightarrow> extends st st'"
  unfolding addTask_def Let_def
  by (auto split: sum.splits option.splits prod.splits
      simp: extends_debug_error extends_refl new_task_def intro!: extends_push)

lemma addTask_last:
  "addTask defs bld a st = (Return (Some t), st') \<Longrightarrow> tasks st' = tasks st @ [t] \<and> status t = WAITING
     \<and> total_count st' = Suc (total_count st) \<and> trace st' = trace st"
  by (auto simp: addTask_def Let_def new_task_def split: sum.splits option.splits prod.splits)

lemma set_last_id_extends:
  "extends st st1 \<Longrightarrow> tasks st1 = tasks st @ ts @ [t] \<Longrightarrow> extends st (set_last_id k st1)"
  unfolding extends_def set_last_id_def
  apply (elim conjE exE)
  apply (intro conjI)
          apply simp_all
  apply (rule_tac x="ts @ [t\<lparr>tid := Some k\<rparr>]" in exI)
  apply (simp add: butlast_append)
  done

lemma add_array_extends: "add_array defs bld xs m st = (out, st') \<Longrightarrow> extends st st'"
proof (induction xs arbitrary: m st)
  case Nil
  then show ?case by (simp add: extends_refl)
next
  case (Cons a xs)
  obtain o1 st1 where a: "addTask defs bld (applyDefaults a) st = (o1, st1)"
    by (cases "addTask defs bld (applyDefaults a) st")
  have e1: "extends st st1" using a by (rule addTask_extends)
  show ?case
  proof (cases o1)
    case (Throw e)
    then show ?thesis using Cons.prems a e1 by simp
  next
    case (Return ot)
    show ?thesis
    proof (cases ot)
      case None
      then show ?thesis using Cons.prems a e1 Return by simp
    next
      case (Some t)
      then have "add_array defs bld xs (if no_id t then LIST_MODE else m) st1 = (out, st')"
        using Cons.prems a Return by simp
      then have "extends st1 st'" by (rule Cons.IH)
      with e1 show ?thesis by (rule extends_trans)
    qed
  qed
qed

lemma add_object_extends: "add_object defs bld ps m st = (out, st') \<Longrightarrow> extends st st'"
proof (induction ps arbitrary: st)
  case Nil
  then show ?case by (simp add: extends_refl)
next
  case (Cons p ps)
  obtain o1 st1 where a: "addTask defs bld (applyDefaults (snd p)) st = (o1, st1)"
    by (cases "addTask defs bld (applyDefaults (snd p)) st")
  have e1: "extends st st1" using a by (rule addTask_extends)
  show ?case
  proof (cases o1)
    case (Throw e)
    then show ?thesis using Cons.prems a e1 by simp
  next
    case (Return ot)
    show ?thesis
    proof (cases ot)
      case None
      then show ?thesis using Cons.prems a e1 Return by simp
    next
      case (Some t)
      have l: "tasks st1 = tasks st @ [] @ [t]"
        using a Return Some addTask_last by simp
      have e2: "extends st (if no_id t then set_last_id (fst p) st1 else st1)"
        using e1 set_last_id_extends [OF e1 l] by simp
      have "add_object defs bld ps m (if no_id t then set_last_id (fst p) st1 else st1) = (out, st')"
        using Cons.prems a Return Some by simp
      then have "extends (if no_id t then set_last_id (fst p) st1 else st1) st'" by (rule Cons.IH)
      with e2 show ?thesis by (rule extends_trans)
    qed
  qed
qed

lemma addTasks_extends: "addTasks defs bld a st = (out, st') \<Longrightarrow> extends st st'"
  unfolding addTasks_def Let_def
  by (auto split: sum.splits option.splits prod.splits outcome.splits jsval.splits
      simp: extends_debug_error extends_refl
      dest: addTask_extends add_array_extends add_object_extends)

lemma addTask_resolves:
  assumes "resolves defs (type_default st) (cacheAll st) a"
  shows "\<exists>t st'. addTask defs bld (applyDefaults a) st = (Return (Some t), st')
           \<and> no_id t = lacks_id defs (type_default st) (cacheAll st) a"
  using assms
  by (auto simp: resolves_def lacks_id_def addTask_def Let_def no_id_def new_task_def
      split: sum.splits option.splits prod.splits)

lemma add_array_resolved:
  assumes "list_all (resolves defs (type_default st) (cacheAll st)) xs"
  shows "fst (add_array defs bld xs m st) =
           Return (if list_ex (lacks_id defs (type_default st) (cacheAll st)) xs then LIST_MODE else m)"
  using assms
proof (induction xs arbitrary: m st)
  case Nil
  then show ?case by simp
next
  case (Cons a xs)
  obtain t st1 where a: "addTask defs bld (applyDefaults a) st = (Return (Some t), st1)"
    and n: "no_id t = lacks_id defs (type_default st) (cacheAll st) a"
    using addTask_resolves [of defs st a bld] Cons.prems by auto
  have e: "type_default st1 = type_default st \<and> cacheAll st1 = cacheAll st"
    using addTask_extends [OF a] by (simp add: extends_def)
  have ih: "fst (add_array defs bld xs m' st1) =
      Return (if list_ex (lacks_id defs (type_default st) (cacheAll st)) xs then LIST_MODE else m')" for m'
    using Cons.IH [of st1 m'] Cons.prems e by simp
  show ?case
    using a n ih by simp
qed




lemma apply_type_array: "\<exists>ps'. apply_type ty (JArr xs ps) = Inr (JArr xs ps')"
  by (cases ty) (simp_all add: apply_type_def)

lemma drop_type_array: "\<exists>ps'. drop_type ty (JArr xs ps) = JArr xs ps'"
  by (cases ty) (simp_all add: drop_type_def)

lemma addTasks_array:
  assumes "\<not> matches_whole defs (type_default st) (JArr xs ps)"
  shows "addTasks defs bld (JArr xs ps) st = add_array defs bld xs MAP_MODE st"
proof -
  obtain ps1 where 1: "apply_type (type_default st) (JArr xs ps) = Inr (JArr xs ps1)"
    using apply_type_array by blast
  have 2: "getTaskByAsset defs (JArr xs ps1) = None"
    using assms 1 by (simp add: matches_whole_def split: option.splits)
  obtain ps2 where 3: "drop_type (type_default st) (JArr xs ps1) = JArr xs ps2"
    using drop_type_array by blast
  show ?thesis
    by (simp add: addTasks_def 1 2 3)
qed

lemma addTasks_array_mode:
  assumes "\<not> matches_whole defs (type_default st) (JArr xs ps)"
    and "list_all (resolves defs (type_default st) (cacheAll st)) xs"
  shows "fst (addTasks defs bld (JArr xs ps) st) =
           Return (if list_ex (lacks_id defs (type_default st) (cacheAll st)) xs
                   then LIST_MODE else MAP_MODE)"
  using addTasks_array [OF assms(1)] add_array_resolved [OF assms(2)] by simp

text \<open>
  A member without a class: \<open>addTask\<close> returns \<open>undefined\<close> and leaves the list and the
  counter alone; the array loop then throws.
\<close>

lemma addTask_unmatched:
  assumes "resolve defs (type_default st) (cacheAll st) a = Inr None"
  shows "fst (addTask defs bld a st) = Return None
         \<and> tasks (snd (addTask defs bld a st)) = tasks st
         \<and> total_count (snd (addTask defs bld a st)) = total_count st"
  using assms by (cases bld) (simp_all add: addTask_def debug_error_def emit_def)

lemma add_array_unmatched:
  assumes "resolve defs (type_default st) (cacheAll st) (applyDefaults a) = Inr None"
  shows "fst (add_array defs bld (a # rest) m st) = Throw TypeError"
  using assms by (simp add: addTask_def)

lemma add_object_unmatched:
  assumes "resolve defs (type_default st) (cacheAll st) (applyDefaults (snd p)) = Inr None"
  shows "fst (add_object defs bld (p # rest) m st) = Throw TypeError"
  using assms by (simp add: addTask_def)

text \<open>
  C4, at a collection with an unmatched member: the array \<open>['a.png', {foo: 1}, 'b.png']\<close>
  and the object \<open>{x: 'a.png', y: {foo: 1}, z: 'b.png'}\<close> with \<open>LoadTask\<close> registered.
  \<open>addTask\<close> alone does what the claim says of the unmatched member (no task, counters
  and list untouched, no exception), but the loops of \<open>addTasks\<close> read \<open>task.id\<close> of the
  \<open>undefined\<close> it returns: a TypeError leaves \<open>addTasks\<close>, and \<open>b.png\<close>, which comes
  after, is never admitted.
\<close>

theorem C4_unmatched_member_throws:
  "fst (addTasks [LoadTask] RELEASE mixed_array new_batch) = Throw TypeError
   \<and> map original (tasks (snd (addTasks [LoadTask] RELEASE mixed_array new_batch)))
       = [JObj [(''src'', JStr ''a.png'')]]
   \<and> total_count (snd (addTasks [LoadTask] RELEASE mixed_array new_batch)) = 1
   \<and> fst (addTasks [LoadTask] RELEASE mixed_object new_batch) = Throw TypeError
   \<and> map original (tasks (snd (addTasks [LoadTask] RELEASE mixed_object new_batch)))
       = [JObj [(''src'', JStr ''a.png'')]]
   \<and> fst (addTask [LoadTask] RELEASE (JObj [(''foo'', JNum 1)]) new_batch) = Return None
   \<and> snd (addTask [LoadTask] RELEASE (JObj [(''foo'', JNum 1)]) new_batch) = new_batch"
  by (simp add: mixed_array_def mixed_object_def admit_eval new_batch_def)

section \<open>Properties of completion\<close>

lemmas run_eval = setup_batch_def start_def nextTask_def getAssetsContainer_def
  default_options_def new_batch_def taskDone_def fold_and_cache_def fold_result_def notify_def
  finish_def quotient_def id_key_def

lemma silent_append: "silent (a @ b) = (silent a \<and> silent b)"
  by (simp add: silent_def)

lemma silent_Nil: "silent []"
  by (simp add: silent_def)

lemma silent_Cons: "silent (e # ev) = (\<not> is_cache_write e \<and> silent ev)"
  by (simp add: silent_def)

lemma silent_debug: "list_all is_debug ev \<Longrightarrow> silent ev"
  by (induction ev) (auto simp: silent_def is_debug_def is_cache_write_def split: event.splits)

lemma next_loop_silent: "silent (snd (next_loop sa ts))"
  by (induction ts) (auto simp: silent_def is_cache_write_def)

lemma fold_and_cache_ok:
  assumes "container_ok (mode st) (results st)"
  shows "\<exists>st2. fold_and_cache t v st = Inr st2
           \<and> trace st2 = trace st @ (if truthy v \<and> cache t then [CacheWrite (tid t) v] else [])"
  using assms
  by (auto simp: fold_and_cache_def fold_result_def container_ok_def emit_def Let_def
      split: mode.splits jsval.splits)

lemma notify_trace:
  "\<exists>ev. trace (notify t v st) = trace st @ ev \<and> silent ev \<and> list_ex is_task_done ev"
  by (simp add: notify_def emit_def Let_def silent_def is_cache_write_def is_task_done_def)

lemma finish_trace: "\<exists>ev. trace (snd (finish bld m st)) = trace st @ ev \<and> silent ev"
proof -
  have n: "trace (nextTask s) = trace s @ snd (next_loop (startAll s) (tasks s))" for s
    by (simp add: nextTask_def)
  show ?thesis
    unfolding finish_def Let_def
    by (cases bld)
      (auto simp: emit_def n silent_append silent_Cons silent_Nil is_cache_write_def next_loop_silent)
qed

lemma addTasks_trace:
  "\<exists>ev. trace (snd (addTasks defs bld a st)) = trace st @ ev \<and> silent ev"
proof -
  obtain out st' where a: "addTasks defs bld a st = (out, st')"
    by (cases "addTasks defs bld a st")
  from addTasks_extends [OF a] obtain ev where "trace st' = trace st @ ev" "list_all is_debug ev"
    unfolding extends_def by blast
  then show ?thesis using a silent_debug by auto
qed

lemma taskDone_trace:
  assumes "running st" and "find (\<lambda>t. ref t = r) (tasks st) = Some t"
    and "container_ok (mode st) (results st)"
  shows "\<exists>rest. trace (snd (taskDone defs bld r res extra st)) =
            trace st @ (if truthy res \<and> cache t then [CacheWrite (tid t) res] else []) @ rest
          \<and> silent rest \<and> list_ex is_task_done rest"
proof -
  define v where "v = (if truthy res then res else JNull)"
  define st1 where "st1 = st\<lparr>tasks := remove_first r (tasks st)\<rparr>"
  define cw where "cw = (if truthy res \<and> cache t then [CacheWrite (tid t) res] else [])"
  have c1: "container_ok (mode st1) (results st1)"
    using assms(3) by (simp add: st1_def)
  have tv: "(if truthy v \<and> cache t then [CacheWrite (tid t) v] else []) = cw"
    by (simp add: v_def cw_def)
  obtain st2 where f: "fold_and_cache t v st1 = Inr st2" and t2: "trace st2 = trace st @ cw"
    using fold_and_cache_ok [OF c1, of t v] tv by (auto simp: st1_def)
  obtain e1 where n: "trace (notify t v st2) = trace st2 @ e1" "silent e1" "list_ex is_task_done e1"
    using notify_trace by blast
  obtain out st3 where a: "addTasks defs bld (JArr extra []) (notify t v st2) = (out, st3)"
    by (cases "addTasks defs bld (JArr extra []) (notify t v st2)")
  obtain e2 where t3: "trace st3 = trace (notify t v st2) @ e2" "silent e2"
    using addTasks_trace [of defs bld "JArr extra []" "notify t v st2"] a by auto
  have td: "taskDone defs bld r res extra st =
      (case out of Throw e \<Rightarrow> (Throw e, st3) | Return m \<Rightarrow> finish bld m st3)"
    using assms(1,2) f a
    by (simp add: taskDone_def Let_def v_def [symmetric] st1_def [symmetric] split: outcome.splits)
  show ?thesis
  proof (cases out)
    case (Throw e)
    then have "trace (snd (taskDone defs bld r res extra st)) = trace st @ cw @ (e1 @ e2)"
      using td t3 n t2 by simp
    moreover have "silent (e1 @ e2) \<and> list_ex is_task_done (e1 @ e2)"
      using n t3 by (simp add: silent_append)
    ultimately show ?thesis unfolding cw_def by blast
  next
    case (Return m)
    obtain e3 where t4: "trace (snd (finish bld m st3)) = trace st3 @ e3" "silent e3"
      using finish_trace by blast
    have "trace (snd (taskDone defs bld r res extra st)) = trace st @ cw @ (e1 @ e2 @ e3)"
      using td t3 n t2 t4 Return by simp
    moreover have "silent (e1 @ e2 @ e3) \<and> list_ex is_task_done (e1 @ e2 @ e3)"
      using n t3 t4 by (simp add: silent_append)
    ultimately show ?thesis unfolding cw_def by blast
  qed
qed

lemma fold_and_cache_frame:
  assumes "fold_and_cache t v st = Inr st2"
  shows "same_config st st2 \<and> tasks st2 = tasks st \<and> numLoaded st2 = numLoaded st
           \<and> total_count st2 = total_count st"
  using assms
  by (auto simp: fold_and_cache_def same_config_def emit_def Let_def split: if_splits sum.splits)

lemma fold_and_cache_results:
  assumes "fold_and_cache t v st = Inr st2"
  shows "if truthy v then fold_result (mode st) (results st) t v = Inr (results st2)
         else results st2 = results st"
  using assms
  by (auto simp: fold_and_cache_def emit_def Let_def split: if_splits sum.splits)

lemma notify_frame:
  "same_config st (notify t v st) \<and> tasks (notify t v st) = tasks st
     \<and> numLoaded (notify t v st) = numLoaded st \<and> total_count (notify t v st) = total_count st
     \<and> results (notify t v st) = results st"
  by (simp add: notify_def same_config_def emit_def Let_def)

lemma nextTask_frame:
  "same_config st (nextTask st) \<and> numLoaded (nextTask st) = numLoaded st
     \<and> total_count (nextTask st) = total_count st \<and> results (nextTask st) = results st"
  by (simp add: nextTask_def same_config_def)

lemma finish_frame:
  "same_config st (snd (finish bld m st)) \<and> results (snd (finish bld m st)) = results st
     \<and> numLoaded (snd (finish bld m st)) = Suc (numLoaded st)
     \<and> total_count (snd (finish bld m st)) = total_count st"
  unfolding finish_def Let_def
  by (cases bld) (simp_all add: emit_def nextTask_def same_config_def)

lemma extends_config: "extends st st' \<Longrightarrow> same_config st st' \<and> results st' = results st"
  by (simp add: extends_def same_config_def)

lemma same_config_trans: "same_config a b \<Longrightarrow> same_config b c \<Longrightarrow> same_config a c"
  by (simp add: same_config_def)

lemma taskDone_unfold:
  assumes "running st" and "find (\<lambda>t. ref t = r) (tasks st) = Some t"
  shows "taskDone defs bld r res extra st =
           (case fold_and_cache t (if truthy res then res else JNull)
                   (st\<lparr>tasks := remove_first r (tasks st)\<rparr>) of
              Inl e \<Rightarrow> (Throw e, st\<lparr>tasks := remove_first r (tasks st)\<rparr>)
            | Inr st2 \<Rightarrow>
                (case addTasks defs bld (JArr extra [])
                        (notify t (if truthy res then res else JNull) st2) of
                   (Throw e, st3) \<Rightarrow> (Throw e, st3)
                 | (Return m, st3) \<Rightarrow> finish bld m st3))"
  using assms by (simp add: taskDone_def Let_def)

lemma taskDone_results:
  assumes "running st" and "find (\<lambda>t. ref t = r) (tasks st) = Some t"
    and "fold_result (mode st) (results st) t res = Inr res'"
  shows "results (snd (taskDone defs bld r res extra st)) = (if truthy res then res' else results st)
         \<and> mode (snd (taskDone defs bld r res extra st)) = mode st"
proof -
  define v where "v = (if truthy res then res else JNull)"
  define st1 where "st1 = st\<lparr>tasks := remove_first r (tasks st)\<rparr>"
  have tv: "truthy v = truthy res" by (simp add: v_def)
  have fr: "truthy res \<Longrightarrow> fold_result (mode st1) (results st1) t v = Inr res'"
    using assms(3) by (simp add: st1_def v_def)
  obtain st2 where f: "fold_and_cache t v st1 = Inr st2"
    using fr tv by (cases "truthy res") (auto simp: fold_and_cache_def Let_def)
  have r2: "results st2 = (if truthy res then res' else results st)"
    using fold_and_cache_results [OF f] fr tv by (auto simp: st1_def)
  have c2: "mode st2 = mode st"
    using fold_and_cache_frame [OF f] by (simp add: same_config_def st1_def)
  obtain out st3 where a: "addTasks defs bld (JArr extra []) (notify t v st2) = (out, st3)"
    by (cases "addTasks defs bld (JArr extra []) (notify t v st2)")
  have e3: "results st3 = results st2 \<and> mode st3 = mode st2"
    using extends_config [OF addTasks_extends [OF a]] notify_frame [of st2 t v]
    by (simp add: same_config_def)
  have td: "taskDone defs bld r res extra st =
      (case out of Throw e \<Rightarrow> (Throw e, st3) | Return m \<Rightarrow> finish bld m st3)"
    using taskDone_unfold [OF assms(1,2)] f a
    by (simp add: v_def [symmetric] st1_def [symmetric] split: outcome.splits)
  show ?thesis
  proof (cases out)
    case (Throw e)
    then show ?thesis using td e3 r2 c2 by simp
  next
    case (Return m)
    then show ?thesis
      using td e3 r2 c2 finish_frame [of st3 bld m] by (simp add: same_config_def)
  qed
qed

lemma start_frame: "mode (start st) = mode st \<and> results (start st) = results st"
  by (simp add: start_def nextTask_def emit_def)

lemma setup_batch_array:
  assumes "\<not> matches_whole defs (opt_type opts) (JArr xs ps)"
    and "list_all (resolves defs (opt_type opts) (opt_cacheAll opts)) xs"
  shows "fst (setup_batch defs bld (JArr xs ps) opts st) = Return ()
         \<and> mode (snd (setup_batch defs bld (JArr xs ps) opts st)) =
             (if list_ex (lacks_id defs (opt_type opts) (opt_cacheAll opts)) xs
              then LIST_MODE else MAP_MODE)
         \<and> results (snd (setup_batch defs bld (JArr xs ps) opts st)) =
             (if list_ex (lacks_id defs (opt_type opts) (opt_cacheAll opts)) xs
              then JArr [] [] else JObj [])"
proof -
  define st0 where "st0 = st\<lparr>startAll := opt_startAll opts, cacheAll := opt_cacheAll opts,
                   type_default := opt_type opts\<rparr>"
  have c: "type_default st0 = opt_type opts" "cacheAll st0 = opt_cacheAll opts"
    by (simp_all add: st0_def)
  obtain out st1 where a: "addTasks defs bld (JArr xs ps) st0 = (out, st1)"
    by (cases "addTasks defs bld (JArr xs ps) st0")
  have o: "out = Return (if list_ex (lacks_id defs (opt_type opts) (opt_cacheAll opts)) xs
                   then LIST_MODE else MAP_MODE)"
    using addTasks_array_mode [of defs st0 xs ps bld] assms a c by simp
  show ?thesis
    using a o
    by (simp add: setup_batch_def Let_def st0_def [symmetric] start_frame getAssetsContainer_def)
qed



lemma fold_result_ok:
  "container_ok m c \<Longrightarrow> \<exists>c'. fold_result m c t v = Inr c' \<and> container_ok m c'"
  by (auto simp: fold_result_def container_ok_def split: mode.splits jsval.splits)

lemma taskDone_container_ok:
  assumes "container_ok (mode st) (results st)"
  shows "container_ok (mode (snd (taskDone defs bld r res extra st)))
           (results (snd (taskDone defs bld r res extra st)))"
proof (cases "running st \<and> find (\<lambda>t. ref t = r) (tasks st) \<noteq> None")
  case False
  then have "taskDone defs bld r res extra st = (Return (), st)"
    by (auto simp: taskDone_def Let_def)
  then show ?thesis using assms by simp
next
  case True
  then obtain t where t: "running st" "find (\<lambda>t. ref t = r) (tasks st) = Some t"
    by auto
  obtain c' where c: "fold_result (mode st) (results st) t res = Inr c'"
      "container_ok (mode st) c'"
    using fold_result_ok [OF assms] by blast
  show ?thesis
    using taskDone_results [OF t c(1), of defs bld extra] c(2) assms by simp
qed

lemma setup_batch_container_ok:
  assumes "setup_batch defs bld a opts st = (Return (), st')"
  shows "container_ok (mode st') (results st')"
  using assms
  by (auto simp: setup_batch_def Let_def start_frame container_ok_def getAssetsContainer_def
      split: prod.splits outcome.splits mode.splits if_splits)

subsection \<open>Concrete batches, evaluated\<close>

lemma ab_batch_value:
  "setup_batch [LoadTask] RELEASE (JArr [JStr ''a'', JStr ''b''] []) default_options new_batch =
    (Return (),
     \<lparr>mode = LIST_MODE, startAll = True, cacheAll = False,
      tasks =
        [\<lparr>ref = 0, cls = ''LoadTask'', tid = None, cache = False,
            status = RUNNING, original = JObj [(''src'', JStr ''a'')], hook = False\<rparr>,
         \<lparr>ref = 1, cls = ''LoadTask'', tid = None, cache = False,
            status = RUNNING, original = JObj [(''src'', JStr ''b'')], hook = False\<rparr>],
      results = JArr [] [], running = True, numLoaded = 0, total_count = 2,
      type_default = None,
      trace = [Progress (Fin 0), TaskStart 0, TaskStart 1], fresh = 2\<rparr>)"
  by (simp add: admit_eval run_eval)

lemma ab_batch_eq:
  "ab_batch =
     \<lparr>mode = LIST_MODE, startAll = True, cacheAll = False,
      tasks =
        [\<lparr>ref = 0, cls = ''LoadTask'', tid = None, cache = False,
            status = RUNNING, original = JObj [(''src'', JStr ''a'')], hook = False\<rparr>,
         \<lparr>ref = 1, cls = ''LoadTask'', tid = None, cache = False,
            status = RUNNING, original = JObj [(''src'', JStr ''b'')], hook = False\<rparr>],
      results = JArr [] [], running = True, numLoaded = 0, total_count = 2,
      type_default = None,
      trace = [Progress (Fin 0), TaskStart 0, TaskStart 1], fresh = 2\<rparr>"
  unfolding ab_batch_def ab_batch_value by simp

lemma ab_batch1_value:
  "taskDone [LoadTask] RELEASE 0 (JStr ''A'') [] ab_batch = (Return (),
    \<lparr>mode = LIST_MODE, startAll = True, cacheAll = False,
     tasks =
       [\<lparr>ref = 1, cls = ''LoadTask'', tid = None, cache = False,
           status = RUNNING, original = JObj [(''src'', JStr ''b'')], hook = False\<rparr>],
     results = JArr [JStr ''A''] [], running = True, numLoaded = 1, total_count = 2,
     type_default = None,
     trace =
       [Progress (Fin 0), TaskStart 0, TaskStart 1,
        TaskDoneEvent (JStr ''A'') (JObj [(''src'', JStr ''a'')]),
        TaskDestroy 0, Progress (Fin (1 / 2))],
     fresh = 2\<rparr>)"
  unfolding ab_batch_eq by (simp add: admit_eval run_eval)

lemma ab_batch1_eq:
  "ab_batch1 =
    \<lparr>mode = LIST_MODE, startAll = True, cacheAll = False,
     tasks =
       [\<lparr>ref = 1, cls = ''LoadTask'', tid = None, cache = False,
           status = RUNNING, original = JObj [(''src'', JStr ''b'')], hook = False\<rparr>],
     results = JArr [JStr ''A''] [], running = True, numLoaded = 1, total_count = 2,
     type_default = None,
     trace =
       [Progress (Fin 0), TaskStart 0, TaskStart 1,
        TaskDoneEvent (JStr ''A'') (JObj [(''src'', JStr ''a'')]),
        TaskDestroy 0, Progress (Fin (1 / 2))],
     fresh = 2\<rparr>"
  unfolding ab_batch1_def ab_batch1_value by simp


lemma cached_batch_eq:
  "cached_batch =
    \<lparr>mode = MAP_MODE, startAll = True, cacheAll = False,
     tasks =
       [\<lparr>ref = 0, cls = ''LoadTask'', tid = Some ''a'', cache = True,
           status = RUNNING,
           original = JObj [(''src'', JStr ''a.png''), (''id'', JStr ''a''), (''cache'', JBool True)],
           hook = False\<rparr>],
     results = JObj [], running = True, numLoaded = 0, total_count = 1,
     type_default = None,
     trace = [Progress (Fin 0), TaskStart 0], fresh = 1\<rparr>"
  by (simp add: cached_batch_def admit_eval run_eval)

lemma serial_batch_value:
  "setup_batch [LoadTask] RELEASE (JArr [JStr ''a'', JStr ''b''] []) serial_options new_batch =
    (Return (),
     \<lparr>mode = LIST_MODE, startAll = False, cacheAll = False,
      tasks =
        [\<lparr>ref = 0, cls = ''LoadTask'', tid = None, cache = False,
            status = RUNNING, original = JObj [(''src'', JStr ''a'')], hook = False\<rparr>,
         \<lparr>ref = 1, cls = ''LoadTask'', tid = None, cache = False,
            status = WAITING, original = JObj [(''src'', JStr ''b'')], hook = False\<rparr>],
      results = JArr [] [], running = True, numLoaded = 0, total_count = 2,
      type_default = None,
      trace = [Progress (Fin 0), TaskStart 0], fresh = 2\<rparr>)"
  by (simp add: serial_options_def admit_eval run_eval)

subsection \<open>The cache write\<close>

text \<open>
  C6: a completion that passes the guards of \<open>taskDone\<close> (the batch runs, the task is
  pending) emits, after what the trace held, the cache write exactly when the result is
  truthy and the task's cache flag is set, and then a rest that holds the \<open>taskDone\<close>
  event and no cache write: the write comes before every other event of the call. A
  completion that fails a guard changes nothing, so it writes nothing.
\<close>

theorem C6_cache_write_first:
  "(running st \<and> find (\<lambda>t. ref t = r) (tasks st) = Some t \<and> container_ok (mode st) (results st)
    \<longrightarrow> (\<exists>rest. trace (snd (taskDone defs bld r res extra st)) =
                   trace st @ (if truthy res \<and> cache t then [CacheWrite (tid t) res] else []) @ rest
                 \<and> silent rest \<and> list_ex is_task_done rest))
   \<and> (\<not> running st \<or> find (\<lambda>t. ref t = r) (tasks st) = None
    \<longrightarrow> taskDone defs bld r res extra st = (Return (), st))"
proof (intro conjI impI)
  assume "running st \<and> find (\<lambda>t. ref t = r) (tasks st) = Some t \<and> container_ok (mode st) (results st)"
  then show "\<exists>rest. trace (snd (taskDone defs bld r res extra st)) =
                   trace st @ (if truthy res \<and> cache t then [CacheWrite (tid t) res] else []) @ rest
                 \<and> silent rest \<and> list_ex is_task_done rest"
    using taskDone_trace [of st r t defs bld res extra] by simp
next
  assume "\<not> running st \<or> find (\<lambda>t. ref t = r) (tasks st) = None"
  then show "taskDone defs bld r res extra st = (Return (), st)"
    by (auto simp: taskDone_def Let_def)
qed

theorem C6_cache_write_first_witness:
  "running cached_batch \<and> container_ok (mode cached_batch) (results cached_batch)
   \<and> (\<exists>rest. trace (snd (taskDone [LoadTask] RELEASE 0 (JStr ''A'') [] cached_batch)) =
               trace cached_batch @ [CacheWrite (Some ''a'') (JStr ''A'')] @ rest
             \<and> silent rest \<and> list_ex is_task_done rest)
   \<and> taskDone [LoadTask] RELEASE 7 (JStr ''A'') [] cached_batch = (Return (), cached_batch)"
proof -
  have 1: "running cached_batch" by (simp add: cached_batch_eq)
  have 2: "find (\<lambda>t. ref t = 0) (tasks cached_batch) =
      Some \<lparr>ref = 0, cls = ''LoadTask'', tid = Some ''a'', cache = True,
           status = RUNNING,
           original = JObj [(''src'', JStr ''a.png''), (''id'', JStr ''a''), (''cache'', JBool True)],
           hook = False\<rparr>"
    by (simp add: cached_batch_eq)
  have 3: "container_ok (mode cached_batch) (results cached_batch)"
    by (simp add: cached_batch_eq container_ok_def)
  have 4: "find (\<lambda>t. ref t = 7) (tasks cached_batch) = None"
    by (simp add: cached_batch_eq)
  define t0 where "t0 = \<lparr>ref = 0, cls = ''LoadTask'', tid = Some ''a'', cache = True,
           status = RUNNING,
           original = JObj [(''src'', JStr ''a.png''), (''id'', JStr ''a''), (''cache'', JBool True)],
           hook = False\<rparr>"
  have 5: "cache t0 \<and> tid t0 = Some ''a''" by (simp add: t0_def)
  show ?thesis
    using C6_cache_write_first [of cached_batch 0 t0 "[LoadTask]" RELEASE "JStr ''A''" "[]"]
      C6_cache_write_first [of cached_batch 7 t0 "[LoadTask]" RELEASE "JStr ''A''" "[]"]
      1 2 [folded t0_def] 3 4 5
    by simp
qed

subsection \<open>The shape of the container\<close>

text \<open>
  C5, as stated, at the array \<open>[{src: 'a.png', id: 'a', cache: true}]\<close>: every task has an
  id, the mode stays MAP and the container is an empty object, not an array.
\<close>

theorem C5_array_with_ids_counterexample:
  "mode cached_batch = MAP_MODE \<and> results cached_batch = JObj []"
  by (simp add: cached_batch_eq)

text \<open>
  C5, amended: for an array that matches no class as a whole, whose members all resolve
  and at least one of whose tasks lacks an id, \<open>setup\<close> returns normally with the mode
  LIST and an empty array as the container; and in a running LIST batch the completion of
  a pending task appends its result, when truthy, at the end of the container (and leaves
  the container as it is otherwise): the container is in completion order.
\<close>

theorem C5_list_shape:
  "(\<not> matches_whole defs (opt_type opts) (JArr xs ps)
      \<and> list_all (resolves defs (opt_type opts) (opt_cacheAll opts)) xs
      \<and> list_ex (lacks_id defs (opt_type opts) (opt_cacheAll opts)) xs
    \<longrightarrow> fst (setup_batch defs bld (JArr xs ps) opts st0) = Return ()
        \<and> mode (snd (setup_batch defs bld (JArr xs ps) opts st0)) = LIST_MODE
        \<and> results (snd (setup_batch defs bld (JArr xs ps) opts st0)) = JArr [] [])
   \<and> (running st \<and> mode st = LIST_MODE \<and> results st = JArr ys qs
        \<and> find (\<lambda>t. ref t = r) (tasks st) = Some t
    \<longrightarrow> mode (snd (taskDone defs bld r res extra st)) = LIST_MODE
        \<and> results (snd (taskDone defs bld r res extra st)) =
            JArr (if truthy res then ys @ [res] else ys) qs)"
proof (intro conjI impI)
  assume h: "\<not> matches_whole defs (opt_type opts) (JArr xs ps)
      \<and> list_all (resolves defs (opt_type opts) (opt_cacheAll opts)) xs
      \<and> list_ex (lacks_id defs (opt_type opts) (opt_cacheAll opts)) xs"
  then have s: "fst (setup_batch defs bld (JArr xs ps) opts st0) = Return ()
         \<and> mode (snd (setup_batch defs bld (JArr xs ps) opts st0)) = LIST_MODE
         \<and> results (snd (setup_batch defs bld (JArr xs ps) opts st0)) = JArr [] []"
    using setup_batch_array [of defs opts xs ps bld st0] by simp
  show "fst (setup_batch defs bld (JArr xs ps) opts st0) = Return ()" using s by simp
  show "mode (snd (setup_batch defs bld (JArr xs ps) opts st0)) = LIST_MODE" using s by simp
  show "results (snd (setup_batch defs bld (JArr xs ps) opts st0)) = JArr [] []" using s by simp
next
  assume h: "running st \<and> mode st = LIST_MODE \<and> results st = JArr ys qs
        \<and> find (\<lambda>t. ref t = r) (tasks st) = Some t"
  then have f: "fold_result (mode st) (results st) t res = Inr (JArr (ys @ [res]) qs)"
    by (simp add: fold_result_def)
  have "results (snd (taskDone defs bld r res extra st)) =
          (if truthy res then JArr (ys @ [res]) qs else results st)
        \<and> mode (snd (taskDone defs bld r res extra st)) = mode st"
    using taskDone_results [OF _ _ f, of r defs bld extra] h by simp
  then show "mode (snd (taskDone defs bld r res extra st)) = LIST_MODE"
    and "results (snd (taskDone defs bld r res extra st)) =
            JArr (if truthy res then ys @ [res] else ys) qs"
    using h by simp_all
qed

theorem C5_list_shape_witness:
  "\<not> matches_whole [LoadTask] None (JArr [JStr ''a'', JStr ''b''] [])
   \<and> list_all (resolves [LoadTask] None False) [JStr ''a'', JStr ''b'']
   \<and> list_ex (lacks_id [LoadTask] None False) [JStr ''a'', JStr ''b'']
   \<and> mode ab_batch = LIST_MODE \<and> results ab_batch = JArr [] []
   \<and> running ab_batch
   \<and> results (snd (taskDone [LoadTask] RELEASE 1 (JStr ''B'') [] ab_batch)) = JArr [JStr ''B''] []"
proof -
  have o: "opt_type default_options = None" "opt_cacheAll default_options = False"
    by (simp_all add: default_options_def)
  have 1: "\<not> matches_whole [LoadTask] (opt_type default_options) (JArr [JStr ''a'', JStr ''b''] [])"
    unfolding o by (simp add: pred_eval admit_eval)
  have 2: "list_all (resolves [LoadTask] (opt_type default_options) (opt_cacheAll default_options))
      [JStr ''a'', JStr ''b'']"
    unfolding o by (simp add: pred_eval admit_eval)
  have 3: "list_ex (lacks_id [LoadTask] (opt_type default_options) (opt_cacheAll default_options))
      [JStr ''a'', JStr ''b'']"
    unfolding o by (simp add: pred_eval admit_eval)
  have 4: "running ab_batch \<and> mode ab_batch = LIST_MODE \<and> results ab_batch = JArr [] []
      \<and> find (\<lambda>t. ref t = 1) (tasks ab_batch) =
         Some \<lparr>ref = 1, cls = ''LoadTask'', tid = None, cache = False,
            status = RUNNING, original = JObj [(''src'', JStr ''b'')], hook = False\<rparr>"
    by (simp add: ab_batch_eq)
  show ?thesis
    using C5_list_shape [of "[LoadTask]" default_options "[JStr ''a'', JStr ''b'']" "[]" RELEASE
        new_batch ab_batch "[]" "[]" 1 _ "JStr ''B''" "[]"] 1 2 3 4
    by (simp add: o ab_batch_def)
qed




subsection \<open>Progress\<close>

lemma progress_values_append: "progress_values (a @ b) = progress_values a @ progress_values b"
  by (induction a rule: progress_values.induct) simp_all

lemma progress_values_debug: "list_all is_debug ev \<Longrightarrow> progress_values ev = []"
  by (induction ev rule: progress_values.induct) (simp_all add: is_debug_def)

lemma progress_values_next_loop: "progress_values (snd (next_loop sa ts)) = []"
  by (induction ts) auto

lemma length_next_loop: "length (fst (next_loop sa ts)) = length ts"
  by (induction ts) auto

lemma length_remove_first:
  "find (\<lambda>t. ref t = r) ts = Some t \<Longrightarrow> Suc (length (remove_first r ts)) = length ts"
  by (induction ts) (auto split: if_splits)

lemma fold_and_cache_progress:
  "fold_and_cache t v st = Inr st2 \<Longrightarrow> progress_values (trace st2) = progress_values (trace st)"
  by (auto simp: fold_and_cache_def emit_def Let_def progress_values_append
      split: if_splits sum.splits)

lemma notify_progress: "progress_values (trace (notify t v st)) = progress_values (trace st)"
  by (simp add: notify_def emit_def Let_def progress_values_append)

lemma finish_progress:
  "progress_values (trace (snd (finish bld m st))) =
     progress_values (trace st) @ [quotient (Suc (numLoaded st)) (total_count st)]"
  unfolding finish_def Let_def
  by (cases bld)
    (simp_all add: emit_def nextTask_def progress_values_append progress_values_next_loop)

lemma finish_length: "length (tasks (snd (finish bld m st))) = length (tasks st)"
  unfolding finish_def Let_def
  by (cases bld) (simp_all add: emit_def nextTask_def length_next_loop)

lemma taskDone_counts:
  assumes "running st" and "find (\<lambda>t. ref t = r) (tasks st) = Some t"
    and "taskDone defs bld r res extra st = (Return (), st')"
  shows "\<exists>k. total_count st' = total_count st + k \<and> numLoaded st' = Suc (numLoaded st)
           \<and> Suc (length (tasks st')) = length (tasks st) + k
           \<and> progress_values (trace st') =
               progress_values (trace st) @ [quotient (numLoaded st') (total_count st')]"
proof -
  define v where "v = (if truthy res then res else JNull)"
  define st1 where "st1 = st\<lparr>tasks := remove_first r (tasks st)\<rparr>"
  have u: "taskDone defs bld r res extra st =
           (case fold_and_cache t v st1 of
              Inl e \<Rightarrow> (Throw e, st1)
            | Inr st2 \<Rightarrow>
                (case addTasks defs bld (JArr extra []) (notify t v st2) of
                   (Throw e, st3) \<Rightarrow> (Throw e, st3)
                 | (Return m, st3) \<Rightarrow> finish bld m st3))"
    using taskDone_unfold [OF assms(1,2), of defs bld res extra] unfolding v_def st1_def .
  obtain st2 where f: "fold_and_cache t v st1 = Inr st2"
    using u assms(3) by (cases "fold_and_cache t v st1") auto
  obtain out st3 where a: "addTasks defs bld (JArr extra []) (notify t v st2) = (out, st3)"
    by (cases "addTasks defs bld (JArr extra []) (notify t v st2)")
  obtain m where o: "out = Return m" and fin: "finish bld m st3 = (Return (), st')"
    using u f a assms(3) by (cases out) auto
  have l1: "Suc (length (tasks st1)) = length (tasks st)"
    using length_remove_first [OF assms(2)] by (simp add: st1_def)
  have n2: "tasks (notify t v st2) = tasks st1 \<and> numLoaded (notify t v st2) = numLoaded st
      \<and> total_count (notify t v st2) = total_count st
      \<and> progress_values (trace (notify t v st2)) = progress_values (trace st)"
    using fold_and_cache_frame [OF f] fold_and_cache_progress [OF f] notify_frame [of st2 t v]
      notify_progress [of t v st2]
    by (simp add: st1_def)
  obtain new ev where e: "tasks st3 = tasks (notify t v st2) @ new"
      "total_count st3 = total_count (notify t v st2) + length new"
      "numLoaded st3 = numLoaded (notify t v st2)"
      "trace st3 = trace (notify t v st2) @ ev" "list_all is_debug ev"
    using addTasks_extends [OF a] unfolding extends_def by blast
  have p3: "progress_values (trace st3) = progress_values (trace st)"
    using e n2 by (simp add: progress_values_append progress_values_debug)
  have s': "st' = snd (finish bld m st3)" using fin by simp
  have "total_count st' = total_count st + length new \<and> numLoaded st' = Suc (numLoaded st)
           \<and> Suc (length (tasks st')) = length (tasks st) + length new
           \<and> progress_values (trace st') =
               progress_values (trace st) @ [quotient (numLoaded st') (total_count st')]"
    using finish_frame [of st3 bld m] finish_progress [of bld m st3] finish_length [of bld m st3]
      e n2 p3 l1
    by (simp add: s')
  then show ?thesis by blast
qed

lemma setup_batch_consistent:
  assumes "setup_batch defs bld a opts new_batch = (Return (), st')" and "opt_autoStart opts"
  shows "consistent st' \<and> running st'"
proof -
  define st0 where "st0 = new_batch\<lparr>startAll := opt_startAll opts, cacheAll := opt_cacheAll opts,
                   type_default := opt_type opts\<rparr>"
  obtain o1 st1 where a: "addTasks defs bld a st0 = (o1, st1)"
    by (cases "addTasks defs bld a st0")
  obtain m where m: "o1 = Return m"
    using assms(1) a by (cases o1) (auto simp: setup_batch_def Let_def st0_def)
  obtain new ev where e: "tasks st1 = tasks st0 @ new" "total_count st1 = total_count st0 + length new"
      "numLoaded st1 = numLoaded st0" "trace st1 = trace st0 @ ev" "list_all is_debug ev"
    using addTasks_extends [OF a] unfolding extends_def by blast
  have z: "tasks st0 = []" "total_count st0 = 0" "numLoaded st0 = 0" "trace st0 = []"
    by (simp_all add: st0_def new_batch_def)
  have s: "st' = start (st1\<lparr>mode := m, results := getAssetsContainer m\<rparr>)"
    using assms a m by (auto simp: setup_batch_def Let_def st0_def)
  show ?thesis
    unfolding s consistent_def start_def nextTask_def emit_def
    using e z
    by (simp add: length_next_loop progress_values_append progress_values_debug
        progress_values_next_loop)
qed

text \<open>
  C1, as stated, at the parallel batch over \<open>['a', 'b']\<close>: \<open>a\<close> completes, then \<open>b\<close>
  completes and admits \<open>'c'\<close>, \<open>'d'\<close> and \<open>'e'\<close>. The fractions emitted are 0, 1/2 and 2/5:
  the last one is smaller than the one before.
\<close>

theorem C1_progress_counterexample:
  "progress_values (trace ab_batch2) = [Fin 0, Fin (1 / 2), Fin (2 / 5)]
   \<and> \<not> ((1 / 2 :: rat) \<le> 2 / 5)
   \<and> tasks ab_batch2 \<noteq> []"
  unfolding ab_batch2_def ab_batch1_eq by (simp add: admit_eval run_eval)

text \<open>
  C1, amended: in a running batch with consistent counters, a completion of a pending
  task that returns normally emits exactly one more fraction, \<open>numLoaded / total\<close> of the
  state it leaves; the counters stay consistent; the fraction is positive and at most 1,
  and it is 1 exactly when the pending list has become empty; and when the call admitted
  no task (the total is unchanged) the fraction is not below the one emitted before.
\<close>

theorem C1_progress:
  assumes "running st" and "consistent st"
    and "find (\<lambda>t. ref t = r) (tasks st) = Some t"
    and "taskDone defs bld r res extra st = (Return (), st')"
  shows "progress_values (trace st') =
           progress_values (trace st) @ [Fin (of_nat (numLoaded st') / of_nat (total_count st'))]
       \<and> consistent st'
       \<and> 0 < numLoaded st' \<and> numLoaded st' \<le> total_count st'
       \<and> ((of_nat (numLoaded st') / of_nat (total_count st') :: rat) = 1 \<longleftrightarrow> tasks st' = [])
       \<and> (total_count st' = total_count st \<longrightarrow>
            (of_nat (numLoaded st) / of_nat (total_count st) :: rat)
              \<le> of_nat (numLoaded st') / of_nat (total_count st'))"
proof -
  obtain k where k: "total_count st' = total_count st + k" "numLoaded st' = Suc (numLoaded st)"
      "Suc (length (tasks st')) = length (tasks st) + k"
      "progress_values (trace st') =
               progress_values (trace st) @ [quotient (numLoaded st') (total_count st')]"
    using taskDone_counts [OF assms(1,3,4)] by blast
  have c: "total_count st = numLoaded st + length (tasks st)"
    using assms(2) by (simp add: consistent_def)
  have t: "total_count st' = numLoaded st' + length (tasks st')"
    using k c by simp
  have pos: "0 < total_count st'" using t k by simp
  have q: "quotient (numLoaded st') (total_count st') =
      Fin (of_nat (numLoaded st') / of_nat (total_count st'))"
    using pos by (simp add: quotient_def)
  have 1: "progress_values (trace st') =
           progress_values (trace st) @ [Fin (of_nat (numLoaded st') / of_nat (total_count st'))]"
    using k q by simp
  have 2: "consistent st'"
    using t 1 by (simp add: consistent_def)
  have 3: "0 < numLoaded st' \<and> numLoaded st' \<le> total_count st'"
    using t k by simp
  have 4: "((of_nat (numLoaded st') / of_nat (total_count st') :: rat) = 1 \<longleftrightarrow> tasks st' = [])"
  proof -
    have "((of_nat (numLoaded st') / of_nat (total_count st') :: rat) = 1)
        = (numLoaded st' = total_count st')"
      using pos by (auto simp: divide_eq_1_iff)
    then show ?thesis using t by simp
  qed
  have 5: "total_count st' = total_count st \<longrightarrow>
            (of_nat (numLoaded st) / of_nat (total_count st) :: rat)
              \<le> of_nat (numLoaded st') / of_nat (total_count st')"
    using k pos by (auto simp: divide_right_mono)
  show ?thesis using 1 2 3 4 5 by blast
qed

theorem C1_progress_witness:
  "running ab_batch \<and> consistent ab_batch
   \<and> progress_values (trace ab_batch1) = [Fin 0, Fin (1 / 2)]
   \<and> consistent ab_batch1"
proof -
  have 1: "running ab_batch" by (simp add: ab_batch_eq)
  have 2: "consistent ab_batch" by (simp add: ab_batch_eq consistent_def)
  have 3: "find (\<lambda>t. ref t = 0) (tasks ab_batch) =
      Some \<lparr>ref = 0, cls = ''LoadTask'', tid = None, cache = False,
            status = RUNNING, original = JObj [(''src'', JStr ''a'')], hook = False\<rparr>"
    by (simp add: ab_batch_eq)
  have 4: "taskDone [LoadTask] RELEASE 0 (JStr ''A'') [] ab_batch = (Return (), ab_batch1)"
    unfolding ab_batch1_eq by (rule ab_batch1_value)
  have 5: "progress_values (trace ab_batch) = [Fin 0]" by (simp add: ab_batch_eq)
  have 6: "numLoaded ab_batch1 = 1 \<and> total_count ab_batch1 = 2" by (simp add: ab_batch1_eq)
  show ?thesis
    using C1_progress [OF 1 2 3 4] 1 2 5 6 by simp
qed

subsection \<open>The serial policy\<close>

lemma next_loop_serial:
  "length (filter (\<lambda>t. status t = RUNNING) (fst (next_loop False ts)))
     \<le> Suc (length (filter (\<lambda>t. status t = RUNNING) ts))
   \<and> length (snd (next_loop False ts)) \<le> 1"
  by (induction ts) auto

lemma nextTask_serial:
  assumes "\<not> startAll st"
  shows "in_flight (nextTask st) \<le> Suc (in_flight st)
         \<and> (\<exists>ev. trace (nextTask st) = trace st @ ev \<and> length ev \<le> 1)"
  using assms next_loop_serial [of "tasks st"] by (simp add: nextTask_def in_flight_def)

lemma extends_in_flight: "extends st st' \<Longrightarrow> in_flight st' = in_flight st"
proof -
  assume "extends st st'"
  then obtain new where n: "tasks st' = tasks st @ new" "list_all (\<lambda>t. status t = WAITING) new"
    unfolding extends_def by blast
  have "filter (\<lambda>t. status t = RUNNING) new = []"
    using n(2) by (induction new) auto
  then show ?thesis using n(1) by (simp add: in_flight_def)
qed

lemma remove_first_running:
  "find (\<lambda>t. ref t = r) ts = Some t \<Longrightarrow> status t = RUNNING \<Longrightarrow>
   Suc (length (filter (\<lambda>t. status t = RUNNING) (remove_first r ts)))
     = length (filter (\<lambda>t. status t = RUNNING) ts)"
  by (induction ts) (auto split: if_splits)

lemma finish_serial:
  assumes "\<not> startAll st" and "in_flight st = 0" and "running st"
  shows "serial_inv (snd (finish bld m st))"
proof -
  define st2 where "st2 = emit (Progress (quotient (Suc (numLoaded st)) (total_count st)))
      (st\<lparr>numLoaded := Suc (numLoaded st)\<rparr>)"
  have a: "\<not> startAll st2" "in_flight st2 = 0" "running st2"
    using assms by (simp_all add: st2_def emit_def in_flight_def)
  have n: "serial_inv (nextTask st2)"
    using nextTask_serial [OF a(1)] a nextTask_frame [of st2]
    by (simp add: serial_inv_def same_config_def)
  have e: "serial_inv (emit ev st2)" for ev
    using a by (simp add: serial_inv_def emit_def in_flight_def)
  have s: "serial_inv st2"
    using a by (simp add: serial_inv_def)
  show ?thesis
    unfolding finish_def Let_def st2_def [symmetric, unfolded Let_def]
    using n e s by (cases bld) (simp_all add: st2_def [symmetric])
qed

lemma start_serial:
  assumes "\<not> startAll st" and "in_flight st = 0"
  shows "serial_inv (start st)"
proof -
  define st1 where "st1 = (emit (Progress (Fin 0)) st)\<lparr>running := True\<rparr>"
  have a: "\<not> startAll st1" "in_flight st1 = 0" "running st1"
    using assms by (simp_all add: st1_def emit_def in_flight_def)
  show ?thesis
    using nextTask_serial [OF a(1)] a nextTask_frame [of st1]
    by (simp add: serial_inv_def same_config_def start_def st1_def [symmetric])
qed

lemma setup_batch_serial:
  assumes "setup_batch defs bld assets opts new_batch = (out, st)" and "\<not> opt_startAll opts"
  shows "serial_inv st"
proof -
  define st0 where "st0 = new_batch\<lparr>startAll := opt_startAll opts, cacheAll := opt_cacheAll opts,
                   type_default := opt_type opts\<rparr>"
  have z: "\<not> startAll st0" "in_flight st0 = 0" "\<not> running st0"
    using assms(2) by (simp_all add: st0_def new_batch_def in_flight_def)
  obtain o1 st1 where a: "addTasks defs bld assets st0 = (o1, st1)"
    by (cases "addTasks defs bld assets st0")
  have e: "\<not> startAll st1" "in_flight st1 = 0"
    using extends_in_flight [OF addTasks_extends [OF a]]
      extends_config [OF addTasks_extends [OF a]] z
    by (simp_all add: same_config_def)
  show ?thesis
  proof (cases o1)
    case (Throw err)
    then have "st = st1"
      using assms(1) a by (simp add: setup_batch_def Let_def st0_def [symmetric])
    then show ?thesis using e by (simp add: serial_inv_def)
  next
    case (Return m)
    define st2 where "st2 = st1\<lparr>mode := m, results := getAssetsContainer m\<rparr>"
    have e2: "\<not> startAll st2" "in_flight st2 = 0"
      using e by (simp_all add: st2_def in_flight_def)
    have "st = (if opt_autoStart opts then start st2 else st2)"
      using assms(1) a Return
      by (auto simp: setup_batch_def Let_def st0_def [symmetric] st2_def)
    then show ?thesis
      using start_serial [OF e2] e2 by (simp add: serial_inv_def)
  qed
qed

lemma taskDone_serial:
  assumes "serial_inv st" and "find (\<lambda>t. ref t = r) (tasks st) = Some t"
    and "status t = RUNNING" and "taskDone defs bld r res extra st = (out, st')"
  shows "serial_inv st'"
proof (cases "running st")
  case False
  then have "st' = st" using assms(4) by (simp add: taskDone_def)
  then show ?thesis using assms(1) by simp
next
  case True
  define v where "v = (if truthy res then res else JNull)"
  define st1 where "st1 = st\<lparr>tasks := remove_first r (tasks st)\<rparr>"
  have u: "taskDone defs bld r res extra st =
           (case fold_and_cache t v st1 of
              Inl e \<Rightarrow> (Throw e, st1)
            | Inr st2 \<Rightarrow>
                (case addTasks defs bld (JArr extra []) (notify t v st2) of
                   (Throw e, st3) \<Rightarrow> (Throw e, st3)
                 | (Return m, st3) \<Rightarrow> finish bld m st3))"
    using taskDone_unfold [OF True assms(2), of defs bld res extra] unfolding v_def st1_def .
  have "Suc (in_flight st1) = in_flight st"
    using remove_first_running [OF assms(2,3)] by (simp add: in_flight_def st1_def)
  then have "in_flight st1 = 0"
    using assms(1) by (simp add: serial_inv_def)
  then have z1: "\<not> startAll st1" "in_flight st1 = 0" "running st1"
    using assms(1) True by (simp_all add: serial_inv_def st1_def)
  show ?thesis
  proof (cases "fold_and_cache t v st1")
    case (Inl e)
    then have "st' = st1" using u assms(4) by simp
    then show ?thesis using z1 by (simp add: serial_inv_def)
  next
    case (Inr st2)
    have z2: "\<not> startAll (notify t v st2)" "in_flight (notify t v st2) = 0"
        "running (notify t v st2)"
      using fold_and_cache_frame [OF Inr] notify_frame [of st2 t v] z1
      by (simp_all add: same_config_def in_flight_def)
    obtain o3 st3 where a: "addTasks defs bld (JArr extra []) (notify t v st2) = (o3, st3)"
      by (cases "addTasks defs bld (JArr extra []) (notify t v st2)")
    have z3: "\<not> startAll st3" "in_flight st3 = 0" "running st3"
      using extends_in_flight [OF addTasks_extends [OF a]]
        extends_config [OF addTasks_extends [OF a]] z2
      by (simp_all add: same_config_def)
    show ?thesis
    proof (cases o3)
      case (Throw e)
      then have "st' = st3" using u assms(4) Inr a by simp
      then show ?thesis using z3 by (simp add: serial_inv_def)
    next
      case (Return m)
      then have "finish bld m st3 = (out, st')" using u assms(4) Inr a by simp
      then have "st' = snd (finish bld m st3)" by simp
      then show ?thesis using finish_serial [OF z3] by simp
    qed
  qed
qed

lemma serial_run_inv: "serial_run defs bld st \<Longrightarrow> serial_inv st"
proof (induction rule: serial_run.induct)
  case (created assets opts out st)
  then show ?case by (rule setup_batch_serial)
next
  case (started st)
  then have "\<not> startAll st" "in_flight st = 0"
    by (simp_all add: serial_inv_def)
  then show ?case by (rule start_serial)
next
  case (completed st r t res extra out st')
  then show ?case using taskDone_serial by blast
qed

lemma dispatch_ordered_append:
  "dispatch_ordered k (a @ b) = (dispatch_ordered k a \<and> dispatch_ordered (open_after k a) b)"
  by (induction k a rule: dispatch_ordered.induct) simp_all

lemma open_after_append: "open_after k (a @ b) = open_after (open_after k a) b"
  by (induction k a rule: open_after.induct) simp_all

lemma neutral_ordered: "neutral ev \<Longrightarrow> dispatch_ordered k ev \<and> open_after k ev = k"
  by (induction k ev rule: dispatch_ordered.induct) (simp_all add: neutral_def)

lemma neutral_debug: "list_all is_debug ev \<Longrightarrow> neutral ev"
  by (induction ev) (auto simp: neutral_def is_debug_def split: event.splits)

lemma next_loop_serial_events:
  "snd (next_loop False ts) = [] \<or> (\<exists>r. snd (next_loop False ts) = [TaskStart r])"
  by (induction ts) auto

lemma trace_inv_append_neutral:
  assumes "trace_inv st" and "trace st' = trace st @ ev" and "neutral ev" and "running st' = running st"
  shows "trace_inv st'"
  using assms neutral_ordered [OF assms(3)]
  by (simp add: trace_inv_def dispatch_ordered_append open_after_append)

lemma serial_events_ordered:
  "dispatch_ordered 0 (snd (next_loop False ts)) \<and> open_after 0 (snd (next_loop False ts)) \<le> 1"
  using next_loop_serial_events [of ts] by auto

lemma start_trace_inv:
  assumes "trace_inv st" and "\<not> running st" and "\<not> startAll st"
  shows "trace_inv (start st)"
proof -
  have t: "trace (start st) = trace st @ [Progress (Fin 0)] @ snd (next_loop False (tasks st))"
    using assms(3) by (simp add: start_def nextTask_def emit_def)
  have z: "dispatch_ordered 0 (trace st)" "open_after 0 (trace st) = 0"
    using assms(1,2) by (simp_all add: trace_inv_def)
  have r: "running (start st)" by (simp add: start_def nextTask_def emit_def)
  show ?thesis
    using z r serial_events_ordered [of "tasks st"]
    by (simp add: trace_inv_def t dispatch_ordered_append open_after_append)
qed

lemma finish_trace_inv:
  assumes "dispatch_ordered 0 (trace st)" and "open_after 0 (trace st) = 0"
    and "running st" and "\<not> startAll st"
  shows "trace_inv (snd (finish bld m st))"
proof -
  have r: "running (snd (finish bld m st))"
    using finish_frame [of st bld m] assms(3) by (simp add: same_config_def)
  have "\<exists>ev. trace (snd (finish bld m st)) = trace st @ ev \<and> dispatch_ordered 0 ev
      \<and> open_after 0 ev \<le> 1"
    unfolding finish_def Let_def
    using assms(4) serial_events_ordered [of "tasks st"]
    by (cases bld) (auto simp: emit_def nextTask_def)
  then show ?thesis
    using assms(1,2) r by (auto simp: trace_inv_def dispatch_ordered_append open_after_append)
qed

lemma fold_and_cache_neutral:
  assumes "fold_and_cache t v st = Inr st2"
  shows "\<exists>ev. trace st2 = trace st @ ev \<and> neutral ev"
  using assms
  by (auto simp: fold_and_cache_def emit_def Let_def neutral_def split: if_splits sum.splits)

lemma notify_closes:
  "\<exists>ev. trace (notify t v st) = trace st @ ev \<and> dispatch_ordered k ev \<and> open_after k ev = k - 1"
  by (simp add: notify_def emit_def Let_def)

lemma addTasks_neutral:
  assumes "addTasks defs bld a st = (out, st')"
  shows "\<exists>ev. trace st' = trace st @ ev \<and> neutral ev"
  using addTasks_extends [OF assms] neutral_debug unfolding extends_def by blast

lemma taskDone_trace_inv:
  assumes "trace_inv st" and "\<not> startAll st" and "find (\<lambda>t. ref t = r) (tasks st) = Some t"
    and "taskDone defs bld r res extra st = (out, st')"
  shows "trace_inv st'"
proof (cases "running st")
  case False
  then have "st' = st" using assms(4) by (simp add: taskDone_def)
  then show ?thesis using assms(1) by simp
next
  case True
  define v where "v = (if truthy res then res else JNull)"
  define st1 where "st1 = st\<lparr>tasks := remove_first r (tasks st)\<rparr>"
  have u: "taskDone defs bld r res extra st =
           (case fold_and_cache t v st1 of
              Inl e \<Rightarrow> (Throw e, st1)
            | Inr st2 \<Rightarrow>
                (case addTasks defs bld (JArr extra []) (notify t v st2) of
                   (Throw e, st3) \<Rightarrow> (Throw e, st3)
                 | (Return m, st3) \<Rightarrow> finish bld m st3))"
    using taskDone_unfold [OF True assms(3), of defs bld res extra] unfolding v_def st1_def .
  have i1: "trace_inv st1" "running st1" "\<not> startAll st1"
    using assms(1,2) True by (simp_all add: trace_inv_def st1_def)
  show ?thesis
  proof (cases "fold_and_cache t v st1")
    case (Inl e)
    then have "st' = st1" using u assms(4) by simp
    then show ?thesis using i1 by simp
  next
    case (Inr st2)
    obtain e2 where e2: "trace st2 = trace st1 @ e2" "neutral e2"
      using fold_and_cache_neutral [OF Inr] by blast
    have c2: "running st2" "\<not> startAll st2"
      using fold_and_cache_frame [OF Inr] i1 by (simp_all add: same_config_def)
    have o2: "dispatch_ordered 0 (trace st2)" "open_after 0 (trace st2) \<le> 1"
      using i1(1) e2 neutral_ordered [OF e2(2)]
      by (simp_all add: trace_inv_def dispatch_ordered_append open_after_append)
    obtain en where en: "trace (notify t v st2) = trace st2 @ en"
        "dispatch_ordered (open_after 0 (trace st2)) en"
        "open_after (open_after 0 (trace st2)) en = open_after 0 (trace st2) - 1"
      using notify_closes by blast
    have on: "dispatch_ordered 0 (trace (notify t v st2))" "open_after 0 (trace (notify t v st2)) = 0"
      using o2 en by (simp_all add: dispatch_ordered_append open_after_append)
    have cn: "running (notify t v st2)" "\<not> startAll (notify t v st2)"
      using notify_frame [of st2 t v] c2 by (simp_all add: same_config_def)
    obtain o3 st3 where a: "addTasks defs bld (JArr extra []) (notify t v st2) = (o3, st3)"
      by (cases "addTasks defs bld (JArr extra []) (notify t v st2)")
    obtain e3 where e3: "trace st3 = trace (notify t v st2) @ e3" "neutral e3"
      using addTasks_neutral [OF a] by blast
    have o3: "dispatch_ordered 0 (trace st3)" "open_after 0 (trace st3) = 0"
      using on e3 neutral_ordered [OF e3(2)]
      by (simp_all add: dispatch_ordered_append open_after_append)
    have c3: "running st3" "\<not> startAll st3"
      using extends_config [OF addTasks_extends [OF a]] cn by (simp_all add: same_config_def)
    show ?thesis
    proof (cases o3)
      case (Throw e)
      then have "st' = st3" using u assms(4) Inr a by simp
      then show ?thesis using o3 c3 by (simp add: trace_inv_def)
    next
      case (Return m)
      then have "finish bld m st3 = (out, st')" using u assms(4) Inr a by simp
      then have "st' = snd (finish bld m st3)" by simp
      then show ?thesis using finish_trace_inv [OF o3 c3] by simp
    qed
  qed
qed

lemma setup_batch_trace_inv:
  assumes "setup_batch defs bld assets opts new_batch = (out, st)" and "\<not> opt_startAll opts"
  shows "trace_inv st"
proof -
  define st0 where "st0 = new_batch\<lparr>startAll := opt_startAll opts, cacheAll := opt_cacheAll opts,
                   type_default := opt_type opts\<rparr>"
  have z: "\<not> startAll st0" "trace st0 = []" "\<not> running st0"
    using assms(2) by (simp_all add: st0_def new_batch_def)
  obtain o1 st1 where a: "addTasks defs bld assets st0 = (o1, st1)"
    by (cases "addTasks defs bld assets st0")
  obtain e1 where e1: "trace st1 = trace st0 @ e1" "neutral e1"
    using addTasks_neutral [OF a] by blast
  have c1: "\<not> startAll st1" "\<not> running st1"
    using extends_config [OF addTasks_extends [OF a]] z by (simp_all add: same_config_def)
  have i1: "trace_inv st1"
    using e1 z neutral_ordered [OF e1(2)] by (simp add: trace_inv_def)
  show ?thesis
  proof (cases o1)
    case (Throw err)
    then have "st = st1"
      using assms(1) a by (simp add: setup_batch_def Let_def st0_def [symmetric])
    then show ?thesis using i1 by simp
  next
    case (Return m)
    define st2 where "st2 = st1\<lparr>mode := m, results := getAssetsContainer m\<rparr>"
    have i2: "trace_inv st2" "\<not> running st2" "\<not> startAll st2"
      using i1 c1 by (simp_all add: st2_def trace_inv_def)
    have "st = (if opt_autoStart opts then start st2 else st2)"
      using assms(1) a Return
      by (auto simp: setup_batch_def Let_def st0_def [symmetric] st2_def)
    then show ?thesis
      using start_trace_inv [OF i2] i2 by simp
  qed
qed

lemma serial_run_trace_inv: "serial_run defs bld st \<Longrightarrow> trace_inv st"
proof (induction rule: serial_run.induct)
  case (created assets opts out st)
  then show ?case by (rule setup_batch_trace_inv)
next
  case (started st)
  have "\<not> startAll st"
    using serial_run_inv [OF started.hyps(1)] by (simp add: serial_inv_def)
  then show ?case using started start_trace_inv by blast
next
  case (completed st r t res extra out st')
  have "\<not> startAll st"
    using serial_run_inv [OF completed.hyps(1)] by (simp add: serial_inv_def)
  then show ?case using completed taskDone_trace_inv by blast
qed

text \<open>
  C7: with \<open>startAll\<close> false, \<open>nextTask\<close> raises the number of RUNNING tasks by at most
  one and starts at most one task; and in every state of a serial batch at most one
  pending task is RUNNING, and in its trace every dispatch comes after the \<open>taskDone\<close>
  event of the task dispatched before.
\<close>

theorem C7_serial:
  "(\<not> startAll st \<longrightarrow>
      in_flight (nextTask st) \<le> Suc (in_flight st)
      \<and> (\<exists>ev. trace (nextTask st) = trace st @ ev \<and> length ev \<le> 1))
   \<and> (serial_run defs bld st' \<longrightarrow> in_flight st' \<le> 1 \<and> dispatch_ordered 0 (trace st'))"
  using nextTask_serial [of st] serial_run_inv [of defs bld st'] serial_run_trace_inv [of defs bld st']
  by (simp add: serial_inv_def trace_inv_def)

lemma serial_batch_eq:
  "serial_batch =
     \<lparr>mode = LIST_MODE, startAll = False, cacheAll = False,
      tasks =
        [\<lparr>ref = 0, cls = ''LoadTask'', tid = None, cache = False,
            status = RUNNING, original = JObj [(''src'', JStr ''a'')], hook = False\<rparr>,
         \<lparr>ref = 1, cls = ''LoadTask'', tid = None, cache = False,
            status = WAITING, original = JObj [(''src'', JStr ''b'')], hook = False\<rparr>],
      results = JArr [] [], running = True, numLoaded = 0, total_count = 2,
      type_default = None,
      trace = [Progress (Fin 0), TaskStart 0], fresh = 2\<rparr>"
  unfolding serial_batch_def serial_batch_value by simp

lemma serial_batch1_value:
  "taskDone [LoadTask] RELEASE 0 (JStr ''A'') [] serial_batch = (Return (),
     \<lparr>mode = LIST_MODE, startAll = False, cacheAll = False,
      tasks =
        [\<lparr>ref = 1, cls = ''LoadTask'', tid = None, cache = False,
            status = RUNNING, original = JObj [(''src'', JStr ''b'')], hook = False\<rparr>],
      results = JArr [JStr ''A''] [], running = True, numLoaded = 1, total_count = 2,
      type_default = None,
      trace =
        [Progress (Fin 0), TaskStart 0,
         TaskDoneEvent (JStr ''A'') (JObj [(''src'', JStr ''a'')]),
         TaskDestroy 0, Progress (Fin (1 / 2)), TaskStart 1],
      fresh = 2\<rparr>)"
  unfolding serial_batch_eq by (simp add: admit_eval run_eval)

theorem C7_serial_witness:
  "\<not> startAll serial_batch
   \<and> in_flight (nextTask serial_batch) \<le> Suc (in_flight serial_batch)
   \<and> serial_run [LoadTask] RELEASE serial_batch1
   \<and> in_flight serial_batch1 \<le> 1
   \<and> dispatch_ordered 0 (trace serial_batch1)
   \<and> trace serial_batch1 =
        [Progress (Fin 0), TaskStart 0,
         TaskDoneEvent (JStr ''A'') (JObj [(''src'', JStr ''a'')]),
         TaskDestroy 0, Progress (Fin (1 / 2)), TaskStart 1]"
proof -
  have v: "setup_batch [LoadTask] RELEASE (JArr [JStr ''a'', JStr ''b''] []) serial_options new_batch
      = (Return (), serial_batch)"
    unfolding serial_batch_def serial_batch_value by simp
  have o: "\<not> opt_startAll serial_options" by (simp add: serial_options_def)
  have 0: "serial_run [LoadTask] RELEASE serial_batch"
    using serial_run.created [OF v o] .
  have f: "find (\<lambda>t. ref t = 0) (tasks serial_batch) =
      Some \<lparr>ref = 0, cls = ''LoadTask'', tid = None, cache = False,
            status = RUNNING, original = JObj [(''src'', JStr ''a'')], hook = False\<rparr>"
    by (simp add: serial_batch_eq)
  have d: "taskDone [LoadTask] RELEASE 0 (JStr ''A'') [] serial_batch = (Return (), serial_batch1)"
    unfolding serial_batch1_def serial_batch1_value by simp
  have 1: "serial_run [LoadTask] RELEASE serial_batch1"
    using serial_run.completed [OF 0 f _ d] by simp
  have 2: "\<not> startAll serial_batch"
    by (simp add: serial_batch_eq)
  have 3: "trace serial_batch1 =
        [Progress (Fin 0), TaskStart 0,
         TaskDoneEvent (JStr ''A'') (JObj [(''src'', JStr ''a'')]),
         TaskDestroy 0, Progress (Fin (1 / 2)), TaskStart 1]"
    unfolding serial_batch1_def serial_batch1_value by simp
  show ?thesis
    using C7_serial [of serial_batch "[LoadTask]" RELEASE serial_batch1] 1 2 3 by simp
qed

end
